theory Spec2Isabelle
  imports Complex_Main "HOL-Library.Log_Nat"
begin

section \<open>The review analysis route (src/app/api/analyze/route.ts)\<close>

text \<open>
  The route is one handler, \<open>POST\<close>.  It reads \<open>reviews\<close> and \<open>locale\<close> from the request
  body, asks a chat-completion service once (every locale but \<open>ko\<close>) or twice (\<open>ko\<close>),
  cuts a JSON object out of the reply text, fills in missing percentage fields and answers
  with that object, or with \<open>{error: ...}\<close>.

  Modelling decisions:
  \<^item> text is a \<open>string\<close> of bytes: every UTF-16 code unit of the JavaScript string is
    written in the byte pattern of UTF-8, a code unit below 128 as itself;
  \<^item> a JavaScript number is a double: a rational that the format represents (\<open>Fin\<close>),
    or \<open>NaN\<close>, or one of the two infinities; every literal and every arithmetic result is
    rounded to the nearest double, ties to even, with overflow to an infinity and
    gradual underflow (\<open>to_double\<close>); the sign of zero is not modelled;
  \<^item> a JavaScript object is an association list with distinct keys; the order of the
    keys carries no meaning;
  \<^item> \<open>undefined\<close> is \<open>None\<close> of \<open>json option\<close>;
  \<^item> an exception is a value of \<open>exn\<close>, and a block that may throw returns \<open>exn + 'a\<close>;
    the handler itself returns \<open>Inr\<close> of its response, or \<open>Inl\<close> of the exception that
    no \<open>try\<close> of the route caught;
  \<^item> the body of a response is the value that the text written by \<open>NextResponse.json\<close>
    denotes (\<open>wire\<close>);
  \<^item> the calls to the completion service are recorded, in order, in a log that the
    handler returns beside the response.
\<close>

subsection \<open>JavaScript values that JSON can carry\<close>

datatype jsnum = Fin rat | NaN | PosInf | NegInf

text \<open>Rounding a rational to the nearest double (IEEE 754 binary64, ties to even).  For
  a positive \<open>n / d\<close>, \<open>ilog2 n d\<close> is the exponent \<open>e\<close> with
  \<open>2 ^ e \<le> n / d < 2 ^ (e + 1)\<close>; the doubles around \<open>n / d\<close> are the multiples of
  \<open>2 ^ p\<close> for \<open>p = e - 52\<close>, and for \<open>p = - 1074\<close> below the normal range;
  \<open>round_half_even\<close> picks the nearest multiple; a result of \<open>2 ^ 1024\<close> or more is an
  infinity.\<close>

definition ilog2 :: "int \<Rightarrow> int \<Rightarrow> int" where
  "ilog2 n d =
     (let e0 = bitlen n - bitlen d
      in if (if 0 \<le> e0 then d * 2 ^ nat e0 \<le> n else d \<le> n * 2 ^ nat (- e0)) then e0
         else e0 - 1)"

definition round_half_even :: "int \<Rightarrow> int \<Rightarrow> int" where
  "round_half_even n d =
     (let f = n div d; r = n mod d
      in if 2 * r < d then f else if d < 2 * r then f + 1 else if even f then f else f + 1)"

definition to_double :: "rat \<Rightarrow> jsnum" where
  "to_double q =
     (if q = 0 then Fin 0
      else
        (case quotient_of \<bar>q\<bar> of (n, d) \<Rightarrow>
           let e = ilog2 n d; p = max e (- 1022) - 52
           in if 1024 \<le> e then (if 0 < q then PosInf else NegInf)
              else
                let k = (if 0 \<le> p then round_half_even n (d * 2 ^ nat p)
                         else round_half_even (n * 2 ^ nat (- p)) d);
                    v = (if 0 \<le> p then of_int (k * 2 ^ nat p)
                         else of_int k / of_int (2 ^ nat (- p)))
                in if e = 1023 \<and> 2 ^ 53 \<le> k then (if 0 < q then PosInf else NegInf)
                   else Fin (if 0 < q then v else - v)))"

datatype json =
    JNull
  | JBool bool
  | JNum jsnum
  | JStr string
  | JArr "json list"
  | JObj "(string \<times> json) list"

text \<open>Property read \<open>v.k\<close> on a value that is not \<open>null\<close> or \<open>undefined\<close>.  None of the
  keys the route reads is an array index or a built-in property, so the read is
  \<open>undefined\<close> on everything but an object that has the key.\<close>

fun get_prop :: "json \<Rightarrow> string \<Rightarrow> json option" where
  "get_prop (JObj kvs) k = map_of kvs k"
| "get_prop _ k = None"

text \<open>Assignment to a property of an object: the value replaces the old one in place, or
  the key is added at the end.\<close>

fun obj_set :: "string \<Rightarrow> json \<Rightarrow> (string \<times> json) list \<Rightarrow> (string \<times> json) list" where
  "obj_set k v [] = [(k, v)]"
| "obj_set k v (p # ps) = (if fst p = k then (k, v) # ps else p # obj_set k v ps)"

text \<open>\<open>!v\<close> is true on the falsy values: \<open>undefined\<close>, \<open>null\<close>, \<open>false\<close>, \<open>0\<close>, \<open>NaN\<close>
  and the empty string.\<close>

fun truthy_json :: "json \<Rightarrow> bool" where
  "truthy_json JNull = False"
| "truthy_json (JBool b) = b"
| "truthy_json (JNum n) = (n \<noteq> Fin 0 \<and> n \<noteq> NaN)"
| "truthy_json (JStr s) = (s \<noteq> [])"
| "truthy_json (JArr _) = True"
| "truthy_json (JObj _) = True"

definition truthy :: "json option \<Rightarrow> bool" where
  "truthy v = (case v of None \<Rightarrow> False | Some j \<Rightarrow> truthy_json j)"

definition is_array :: "json option \<Rightarrow> bool" where
  "is_array v = (case v of Some (JArr _) \<Rightarrow> True | _ \<Rightarrow> False)"

subsection \<open>The regular expression \<open>/\{[\s\S]*\}/\<close>\<close>

text \<open>\<open>text.match(/\{[\s\S]*\}/)\<close>: the match starts at the first \<open>{\<close>; the class
  \<open>[\s\S]\<close> takes every character and the star is greedy, so the match ends at the last
  \<open>}\<close> behind that \<open>{\<close>.  There is no match (\<open>null\<close>) when no \<open>}\<close> follows the first
  \<open>{\<close>.\<close>

definition upto_last_close :: "string \<Rightarrow> string" where
  "upto_last_close cs = rev (dropWhile (\<lambda>c. c \<noteq> CHR ''}'') (rev cs))"

definition brace_span :: "string \<Rightarrow> string option" where
  "brace_span text =
     (case dropWhile (\<lambda>c. c \<noteq> CHR ''{'') text of
        [] \<Rightarrow> None
      | c # rest \<Rightarrow>
          if CHR ''}'' \<in> set rest then Some (c # upto_last_close rest) else None)"

subsection \<open>\<open>JSON.parse\<close>\<close>

text \<open>\<open>JSON.parse\<close> is a built-in of the language, not code of the repository.  It is
  modelled after the JSON grammar of ECMA-404: a lexer from characters to tokens, and a
  parser that keeps the open arrays and objects on a stack.\<close>

datatype token =
    LBrace | RBrace | LBrack | RBrack | Colon | Comma
  | TStr string | TNum jsnum | TTrue | TFalse | TNull

definition is_ws :: "char \<Rightarrow> bool" where
  "is_ws c = (c = CHR '' '' \<or> c = CHR 0x09 \<or> c = CHR 0x0A \<or> c = CHR 0x0D)"

definition code_unit :: "char \<Rightarrow> nat" where
  "code_unit c = of_char c"

definition is_digit :: "char \<Rightarrow> bool" where
  "is_digit c = (48 \<le> code_unit c \<and> code_unit c \<le> 57)"

definition digit_val :: "char \<Rightarrow> nat" where
  "digit_val c = code_unit c - 48"

definition digits_val :: "string \<Rightarrow> nat" where
  "digits_val ds = foldl (\<lambda>n c. 10 * n + digit_val c) 0 ds"

definition hex_val :: "char \<Rightarrow> nat option" where
  "hex_val c =
     (if is_digit c then Some (code_unit c - 48)
      else if 97 \<le> code_unit c \<and> code_unit c \<le> 102 then Some (code_unit c - 87)
      else if 65 \<le> code_unit c \<and> code_unit c \<le> 70 then Some (code_unit c - 55)
      else None)"

fun hex4 :: "string \<Rightarrow> nat option" where
  "hex4 [a, b, c, d] =
     (case (hex_val a, hex_val b, hex_val c, hex_val d) of
        (Some x, Some y, Some z, Some w) \<Rightarrow> Some (((x * 16 + y) * 16 + z) * 16 + w)
      | _ \<Rightarrow> None)"
| "hex4 _ = None"

text \<open>The bytes of the code unit that an escape \<open>\uXXXX\<close> denotes.\<close>

definition encode_unit :: "nat \<Rightarrow> string" where
  "encode_unit n =
     (if n < 128 then [char_of n]
      else if n < 2048 then [char_of (192 + n div 64), char_of (128 + n mod 64)]
      else [char_of (224 + n div 4096), char_of (128 + (n div 64) mod 64),
            char_of (128 + n mod 64)])"

definition simple_escape :: "char \<Rightarrow> char option" where
  "simple_escape e =
     (if e = CHR 0x22 \<or> e = CHR 0x5C \<or> e = CHR ''/'' then Some e
      else if e = CHR ''b'' then Some (CHR 0x08)
      else if e = CHR ''f'' then Some (CHR 0x0C)
      else if e = CHR ''n'' then Some (CHR 0x0A)
      else if e = CHR ''r'' then Some (CHR 0x0D)
      else if e = CHR ''t'' then Some (CHR 0x09)
      else None)"

text \<open>The characters of a string literal, behind the opening quote, up to the closing
  quote; the result is the string and the text behind the closing quote.\<close>

fun lex_string :: "string \<Rightarrow> string \<Rightarrow> (string \<times> string) option" where
  "lex_string acc [] = None"
| "lex_string acc (c # cs) =
     (if c = CHR 0x22 then Some (rev acc, cs)
      else if c = CHR 0x5C then
        (case cs of
           [] \<Rightarrow> None
         | e # es \<Rightarrow>
             if e = CHR ''u'' then
               (case hex4 (take 4 es) of
                  None \<Rightarrow> None
                | Some n \<Rightarrow> lex_string (rev (encode_unit n) @ acc) (drop 4 es))
             else
               (case simple_escape e of
                  None \<Rightarrow> None
                | Some d \<Rightarrow> lex_string (d # acc) es))
      else if code_unit c < 32 then None
      else lex_string (c # acc) cs)"

text \<open>A number literal: \<open>-? (0 | [1-9][0-9]*) (. [0-9]+)? ([eE] [+-]? [0-9]+)?\<close>.  The
  argument starts at the first digit; the result is the double nearest to the value
  (without the sign) and the text behind the literal.\<close>

definition js_neg :: "jsnum \<Rightarrow> jsnum" where
  "js_neg n = (case n of Fin r \<Rightarrow> Fin (- r) | NaN \<Rightarrow> NaN | PosInf \<Rightarrow> NegInf | NegInf \<Rightarrow> PosInf)"

definition scale10 :: "rat \<Rightarrow> int \<Rightarrow> rat" where
  "scale10 m e = (if 0 \<le> e then m * 10 ^ nat e else m / 10 ^ nat (- e))"

definition lex_exponent :: "string \<Rightarrow> (int \<times> string) option" where
  "lex_exponent cs =
     (case cs of
        [] \<Rightarrow> None
      | e # r \<Rightarrow>
          if e = CHR ''e'' \<or> e = CHR ''E'' then
            (let (neg, r1) =
                   (case r of
                      [] \<Rightarrow> (False, r)
                    | s # r' \<Rightarrow>
                        if s = CHR ''-'' then (True, r')
                        else if s = CHR ''+'' then (False, r') else (False, r));
                 ds = takeWhile is_digit r1
             in if ds = [] then None
                else Some (if neg then - int (digits_val ds) else int (digits_val ds),
                           dropWhile is_digit r1))
          else None)"

definition lex_fraction :: "string \<Rightarrow> (string \<times> string) option" where
  "lex_fraction cs =
     (case cs of
        [] \<Rightarrow> None
      | d # r \<Rightarrow>
          if d = CHR ''.'' \<and> takeWhile is_digit r \<noteq> []
          then Some (takeWhile is_digit r, dropWhile is_digit r) else None)"

definition lex_number :: "string \<Rightarrow> (jsnum \<times> string) option" where
  "lex_number cs =
     (let ip = (case cs of
                  [] \<Rightarrow> []
                | c # r \<Rightarrow> if c = CHR ''0'' then [c] else takeWhile is_digit cs);
          r0 = drop (length ip) cs
      in if ip = [] then None
         else
           let (fp, r1) = (case lex_fraction r0 of None \<Rightarrow> ([], r0) | Some p \<Rightarrow> p);
               (ex, r2) = (case lex_exponent r1 of None \<Rightarrow> (0, r1) | Some p \<Rightarrow> p)
           in Some (to_double (scale10 (of_nat (digits_val (ip @ fp))) (ex - int (length fp))), r2))"

definition strip_prefix :: "string \<Rightarrow> string \<Rightarrow> string option" where
  "strip_prefix p cs = (if take (length p) cs = p then Some (drop (length p) cs) else None)"

text \<open>One token from the head of a text that does not start with white space.\<close>

definition lex_token :: "string \<Rightarrow> (token \<times> string) option" where
  "lex_token cs =
     (case cs of
        [] \<Rightarrow> None
      | c # r \<Rightarrow>
          if c = CHR ''{'' then Some (LBrace, r)
          else if c = CHR ''}'' then Some (RBrace, r)
          else if c = CHR ''['' then Some (LBrack, r)
          else if c = CHR '']'' then Some (RBrack, r)
          else if c = CHR '':'' then Some (Colon, r)
          else if c = CHR '','' then Some (Comma, r)
          else if c = CHR 0x22 then map_option (\<lambda>(s, r'). (TStr s, r')) (lex_string [] r)
          else if c = CHR ''-'' then map_option (\<lambda>(n, r'). (TNum (js_neg n), r')) (lex_number r)
          else if is_digit c then map_option (\<lambda>(n, r'). (TNum n, r')) (lex_number cs)
          else if c = CHR ''t'' then map_option (Pair TTrue) (strip_prefix ''true'' cs)
          else if c = CHR ''f'' then map_option (Pair TFalse) (strip_prefix ''false'' cs)
          else if c = CHR ''n'' then map_option (Pair TNull) (strip_prefix ''null'' cs)
          else None)"

text \<open>The token sequence of a text.  \<open>lex_token\<close> always consumes a character
  (\<open>lex_token_shorter\<close> below), so the test on the lengths never fails; it is there for
  the termination proof.\<close>

function tokenize :: "string \<Rightarrow> token list option" where
  "tokenize cs =
     (case dropWhile is_ws cs of
        [] \<Rightarrow> Some []
      | c # r \<Rightarrow>
          (case lex_token (c # r) of
             None \<Rightarrow> None
           | Some (t, r') \<Rightarrow>
               if length r' < length cs then map_option ((#) t) (tokenize r') else None))"
  by pat_completeness auto
termination
  by (relation "measure length") auto

declare tokenize.simps [simp del]

text \<open>The parser reads one token at a time.  A frame is an array or an object that is
  still open and waits for a value: the elements read so far (latest first), or the
  members read so far and the key whose value is being read.  A member whose key is
  already there replaces the value, as \<open>JSON.parse\<close> does.\<close>

datatype frame = InArr "json list" | InObj "(string \<times> json) list" string

datatype mode =
    WantValue
  | WantValueOrEnd
  | WantKeyOrEnd
  | WantKey "(string \<times> json) list"
  | WantColon "(string \<times> json) list" string
  | AfterValue json

definition value_start :: "frame list \<Rightarrow> token \<Rightarrow> (mode \<times> frame list) option" where
  "value_start st t =
     (case t of
        LBrack \<Rightarrow> Some (WantValueOrEnd, st)
      | LBrace \<Rightarrow> Some (WantKeyOrEnd, st)
      | TStr s \<Rightarrow> Some (AfterValue (JStr s), st)
      | TNum n \<Rightarrow> Some (AfterValue (JNum n), st)
      | TTrue \<Rightarrow> Some (AfterValue (JBool True), st)
      | TFalse \<Rightarrow> Some (AfterValue (JBool False), st)
      | TNull \<Rightarrow> Some (AfterValue JNull, st)
      | _ \<Rightarrow> None)"

definition after_value :: "json \<Rightarrow> frame list \<Rightarrow> token \<Rightarrow> (mode \<times> frame list) option" where
  "after_value v st t =
     (case st of
        [] \<Rightarrow> None
      | InArr acc # st' \<Rightarrow>
          (case t of
             Comma \<Rightarrow> Some (WantValue, InArr (v # acc) # st')
           | RBrack \<Rightarrow> Some (AfterValue (JArr (rev (v # acc))), st')
           | _ \<Rightarrow> None)
      | InObj acc k # st' \<Rightarrow>
          (case t of
             Comma \<Rightarrow> Some (WantKey (obj_set k v acc), st')
           | RBrace \<Rightarrow> Some (AfterValue (JObj (obj_set k v acc)), st')
           | _ \<Rightarrow> None))"

definition step :: "mode \<times> frame list \<Rightarrow> token \<Rightarrow> (mode \<times> frame list) option" where
  "step s t =
     (case s of (m, st) \<Rightarrow>
        (case m of
           WantValue \<Rightarrow> value_start st t
         | WantValueOrEnd \<Rightarrow>
             (case t of
                RBrack \<Rightarrow> Some (AfterValue (JArr []), st)
              | _ \<Rightarrow> value_start (InArr [] # st) t)
         | WantKeyOrEnd \<Rightarrow>
             (case t of
                RBrace \<Rightarrow> Some (AfterValue (JObj []), st)
              | TStr k \<Rightarrow> Some (WantColon [] k, st)
              | _ \<Rightarrow> None)
         | WantKey acc \<Rightarrow> (case t of TStr k \<Rightarrow> Some (WantColon acc k, st) | _ \<Rightarrow> None)
         | WantColon acc k \<Rightarrow>
             (case t of Colon \<Rightarrow> Some (WantValue, InObj acc k # st) | _ \<Rightarrow> None)
         | AfterValue v \<Rightarrow> after_value v st t))"

fun run :: "mode \<times> frame list \<Rightarrow> token list \<Rightarrow> (mode \<times> frame list) option" where
  "run s [] = Some s"
| "run s (t # ts) = (case step s t of None \<Rightarrow> None | Some s' \<Rightarrow> run s' ts)"

text \<open>\<open>JSON.parse(s)\<close>; \<open>None\<close> is the \<open>SyntaxError\<close>.\<close>

definition json_parse :: "string \<Rightarrow> json option" where
  "json_parse s =
     (case tokenize s of
        None \<Rightarrow> None
      | Some ts \<Rightarrow>
          (case run (WantValue, []) ts of
             Some (AfterValue v, []) \<Rightarrow> Some v
           | _ \<Rightarrow> None))"

text \<open>The states of the parser inside a text whose outermost value is an object.\<close>

definition in_object :: "mode \<times> frame list \<Rightarrow> bool" where
  "in_object s =
     (case s of (m, st) \<Rightarrow>
        (case st of
           [] \<Rightarrow>
             (case m of
                WantKeyOrEnd \<Rightarrow> True
              | WantKey acc \<Rightarrow> True
              | WantColon acc k \<Rightarrow> True
              | AfterValue v \<Rightarrow> (case v of JObj kvs \<Rightarrow> True | _ \<Rightarrow> False)
              | _ \<Rightarrow> False)
         | f # fs \<Rightarrow> (case last st of InObj acc k \<Rightarrow> True | _ \<Rightarrow> False)))"

subsection \<open>Exceptions\<close>

text \<open>What the \<open>try\<close> blocks of the route can catch: an \<open>Error\<close> the route throws itself,
  the \<open>SyntaxError\<close> of \<open>JSON.parse\<close>, a \<open>TypeError\<close> of the engine (a property access on
  \<open>undefined\<close>, an object that cannot be converted to a primitive value, an assignment
  to a property of a primitive value: the route is a module, so it runs in strict mode),
  and what the completion service rejects with: an error object of the client library
  (\<open>Rejection m\<close>, with \<open>m\<close> its \<open>message\<close> property, \<open>None\<close> when it has none).
  The wording of the engine's own messages is not modelled; they are not empty.\<close>

datatype exn = Error string | SyntaxError | TypeError | Rejection "string option"

definition message :: "exn \<Rightarrow> string option" where
  "message e =
     (case e of
        Error m \<Rightarrow> Some m
      | SyntaxError \<Rightarrow> Some ''SyntaxError: the text is not valid JSON''
      | TypeError \<Rightarrow> Some ''TypeError: the operation cannot be applied to the value''
      | Rejection m \<Rightarrow> m)"

text \<open>\<open>err.message || fallback\<close>\<close>

definition message_or :: "exn \<Rightarrow> string \<Rightarrow> string" where
  "message_or e fallback =
     (case message e of None \<Rightarrow> fallback | Some m \<Rightarrow> if m = [] then fallback else m)"

definition and_then :: "exn + 'a \<Rightarrow> ('a \<Rightarrow> exn + 'b) \<Rightarrow> exn + 'b" where
  "and_then r f = (case r of Inl e \<Rightarrow> Inl e | Inr x \<Rightarrow> f x)"

text \<open>Assignment \<open>j.k = v\<close> on a truthy value.  On an array the new property is neither
  read again by the route nor written by \<open>JSON.stringify\<close>.\<close>

definition set_prop :: "json \<Rightarrow> string \<Rightarrow> json \<Rightarrow> exn + json" where
  "set_prop j k v =
     (case j of
        JObj kvs \<Rightarrow> Inr (JObj (obj_set k v kvs))
      | JArr xs \<Rightarrow> Inr (JArr xs)
      | _ \<Rightarrow> Inl TypeError)"

subsection \<open>Conversion to a primitive value\<close>

text \<open>\<open>ToPrimitive\<close> of a value that \<open>JSON.parse\<close> made.  No property of such a value is
  callable.  An object is converted by the \<open>toString\<close> and \<open>valueOf\<close> of
  \<open>Object.prototype\<close>, which give \<open>[object Object]\<close>, unless it has a property
  \<open>toString\<close> of its own: then neither method gives a primitive value and the conversion
  throws a \<open>TypeError\<close>, for the hint \<open>string\<close> (a template literal) as for the hint
  \<open>number\<close> (\<open>>\<close>, \<open>/\<close>).  An array is converted by \<open>join\<close>, which converts
  every element but \<open>null\<close> to a string, so it throws when an element does.\<close>

fun conversion_throws :: "json \<Rightarrow> bool" where
  "conversion_throws (JObj kvs) = (map_of kvs ''toString'' \<noteq> None)"
| "conversion_throws (JArr xs) = list_ex conversion_throws xs"
| "conversion_throws _ = False"

subsection \<open>Numbers: \<open>ToNumber\<close>, \<open>>\<close>, \<open>/\<close>, \<open>*\<close>\<close>

text \<open>\<open>ToNumber\<close> of a string (the grammar \<open>StringNumericLiteral\<close> of ECMA-262): white
  space and line terminators around the literal are dropped, the empty string is \<open>0\<close>, a
  decimal literal may carry a sign, may start or end with the point and may be
  \<open>Infinity\<close>; a literal with the prefix \<open>0x\<close>, \<open>0o\<close> or \<open>0b\<close> has no sign; everything
  else is \<open>NaN\<close>.\<close>

definition str_ws_units :: "nat list" where
  "str_ws_units =
     [9, 10, 11, 12, 13, 32, 160, 5760] @ [8192..<8203] @ [8232, 8233, 8239, 8287, 12288, 65279]"

definition ws_len :: "string list \<Rightarrow> string \<Rightarrow> nat" where
  "ws_len ws s = (case find (\<lambda>w. take (length w) s = w) ws of None \<Rightarrow> 0 | Some w \<Rightarrow> length w)"

function strip_ws :: "string list \<Rightarrow> string \<Rightarrow> string" where
  "strip_ws ws s = (if s \<noteq> [] \<and> 0 < ws_len ws s then strip_ws ws (drop (ws_len ws s) s) else s)"
  by pat_completeness auto
termination
  by (relation "measure (\<lambda>(ws, s). length s)") auto

declare strip_ws.simps [simp del]

definition trim :: "string \<Rightarrow> string" where
  "trim s =
     rev (strip_ws (map (rev \<circ> encode_unit) str_ws_units)
            (rev (strip_ws (map encode_unit str_ws_units) s)))"

definition str_unsigned_decimal :: "string \<Rightarrow> jsnum option" where
  "str_unsigned_decimal t =
     (if t = ''Infinity'' then Some PosInf
      else
        let ip = takeWhile is_digit t;
            r0 = dropWhile is_digit t;
            (fp, r1) =
              (case r0 of
                 [] \<Rightarrow> ([], r0)
               | d # r \<Rightarrow>
                   if d = CHR ''.'' then (takeWhile is_digit r, dropWhile is_digit r)
                   else ([], r0))
        in if ip = [] \<and> fp = [] then None
           else
             (case (if r1 = [] then Some (0, []) else lex_exponent r1) of
                Some (ex, []) \<Rightarrow>
                  Some (to_double (scale10 (of_nat (digits_val (ip @ fp))) (ex - int (length fp))))
              | _ \<Rightarrow> None))"

definition radix_val :: "nat \<Rightarrow> string \<Rightarrow> nat option" where
  "radix_val b ds =
     (if ds \<noteq> [] \<and> list_all (\<lambda>c. case hex_val c of Some d \<Rightarrow> d < b | None \<Rightarrow> False) ds
      then Some (foldl (\<lambda>n c. b * n + (case hex_val c of Some d \<Rightarrow> d | None \<Rightarrow> 0)) 0 ds)
      else None)"

definition non_decimal :: "string \<Rightarrow> nat option" where
  "non_decimal t =
     (case t of
        z # p # ds \<Rightarrow>
          if z \<noteq> CHR ''0'' then None
          else if p = CHR ''x'' \<or> p = CHR ''X'' then radix_val 16 ds
          else if p = CHR ''o'' \<or> p = CHR ''O'' then radix_val 8 ds
          else if p = CHR ''b'' \<or> p = CHR ''B'' then radix_val 2 ds
          else None
      | _ \<Rightarrow> None)"

definition or_nan :: "jsnum option \<Rightarrow> jsnum" where
  "or_nan r = (case r of None \<Rightarrow> NaN | Some n \<Rightarrow> n)"

definition string_to_number :: "string \<Rightarrow> jsnum" where
  "string_to_number s =
     (case trim s of
        [] \<Rightarrow> Fin 0
      | c # r \<Rightarrow>
          if c = CHR ''+'' then or_nan (str_unsigned_decimal r)
          else if c = CHR ''-'' then or_nan (map_option js_neg (str_unsigned_decimal r))
          else
            (case non_decimal (c # r) of
               Some n \<Rightarrow> to_double (of_nat n)
             | None \<Rightarrow> or_nan (str_unsigned_decimal (c # r))))"

text \<open>The number of the string of a value whose conversion does not throw.  The string
  of an array joins its elements by commas, with \<open>null\<close> as the empty string: the empty
  array gives \<open>0\<close>, an array of one element gives the number of that element's string
  (for a number, the number itself), and the string of a longer array has a comma in
  it, which no numeric literal has.  The string of an object is \<open>[object Object]\<close>,
  which is no number.\<close>

fun primitive_number :: "json \<Rightarrow> jsnum" where
  "primitive_number JNull = Fin 0"
| "primitive_number (JBool b) = Fin (if b then 1 else 0)"
| "primitive_number (JNum n) = n"
| "primitive_number (JStr s) = string_to_number s"
| "primitive_number (JObj kvs) = NaN"
| "primitive_number (JArr xs) =
     (case xs of
        [] \<Rightarrow> Fin 0
      | [x] \<Rightarrow>
          (case x of
             JNull \<Rightarrow> Fin 0
           | JBool b \<Rightarrow> NaN
           | JNum n \<Rightarrow> n
           | JStr s \<Rightarrow> string_to_number s
           | JArr ys \<Rightarrow> primitive_number x
           | JObj kvs \<Rightarrow> NaN)
      | _ \<Rightarrow> NaN)"

text \<open>\<open>ToNumber\<close> of a value; \<open>undefined\<close> gives \<open>NaN\<close>.\<close>

definition to_number :: "json option \<Rightarrow> exn + jsnum" where
  "to_number v =
     (case v of
        None \<Rightarrow> Inr NaN
      | Some j \<Rightarrow> if conversion_throws j then Inl TypeError else Inr (primitive_number j))"

text \<open>\<open>a > b\<close> on numbers: false as soon as one side is \<open>NaN\<close>.\<close>

definition js_gt :: "jsnum \<Rightarrow> jsnum \<Rightarrow> bool" where
  "js_gt a b =
     (case (a, b) of
        (NaN, _) \<Rightarrow> False
      | (_, NaN) \<Rightarrow> False
      | (Fin x, Fin y) \<Rightarrow> y < x
      | (PosInf, PosInf) \<Rightarrow> False
      | (PosInf, _) \<Rightarrow> True
      | (_, NegInf) \<Rightarrow> (a \<noteq> NegInf)
      | _ \<Rightarrow> False)"

text \<open>\<open>a / b\<close> and \<open>a * b\<close> on numbers: the exact result, rounded.  A zero is taken as
  \<open>+0\<close>.\<close>

definition js_div :: "jsnum \<Rightarrow> jsnum \<Rightarrow> jsnum" where
  "js_div a b =
     (case (a, b) of
        (NaN, _) \<Rightarrow> NaN
      | (_, NaN) \<Rightarrow> NaN
      | (Fin x, Fin y) \<Rightarrow>
          if y \<noteq> 0 then to_double (x / y)
          else if x = 0 then NaN else if 0 < x then PosInf else NegInf
      | (Fin x, _) \<Rightarrow> Fin 0
      | (PosInf, Fin y) \<Rightarrow> if 0 \<le> y then PosInf else NegInf
      | (NegInf, Fin y) \<Rightarrow> if 0 \<le> y then NegInf else PosInf
      | _ \<Rightarrow> NaN)"

definition js_mul :: "jsnum \<Rightarrow> jsnum \<Rightarrow> jsnum" where
  "js_mul a b =
     (case (a, b) of
        (NaN, _) \<Rightarrow> NaN
      | (_, NaN) \<Rightarrow> NaN
      | (Fin x, Fin y) \<Rightarrow> to_double (x * y)
      | (Fin x, PosInf) \<Rightarrow> if x = 0 then NaN else if 0 < x then PosInf else NegInf
      | (Fin x, NegInf) \<Rightarrow> if x = 0 then NaN else if 0 < x then NegInf else PosInf
      | (PosInf, Fin y) \<Rightarrow> if y = 0 then NaN else if 0 < y then PosInf else NegInf
      | (NegInf, Fin y) \<Rightarrow> if y = 0 then NaN else if 0 < y then NegInf else PosInf
      | (PosInf, PosInf) \<Rightarrow> PosInf
      | (NegInf, NegInf) \<Rightarrow> PosInf
      | _ \<Rightarrow> NegInf)"

text \<open>\<open>typeof v === 'number'\<close>, and the global \<open>isNaN(v)\<close>, which the route reaches only
  for a \<open>v\<close> that is a number.\<close>

definition typeof_number :: "json option \<Rightarrow> bool" where
  "typeof_number v = (case v of Some (JNum n) \<Rightarrow> True | _ \<Rightarrow> False)"

definition js_isNaN :: "json option \<Rightarrow> bool" where
  "js_isNaN v = (case v of Some (JNum n) \<Rightarrow> n = NaN | _ \<Rightarrow> False)"

subsection \<open>\<open>JSON.stringify\<close>\<close>

text \<open>\<open>NextResponse.json(j)\<close> writes \<open>JSON.stringify(j)\<close> as the body.  For a value that
  \<open>JSON.parse\<close> made and the route changed, the text denotes the value itself, but for
  the numbers that JSON cannot write: \<open>NaN\<close> and the infinities are written \<open>null\<close>.\<close>

fun wire :: "json \<Rightarrow> json" where
  "wire JNull = JNull"
| "wire (JBool b) = JBool b"
| "wire (JNum n) = (case n of Fin r \<Rightarrow> JNum (Fin r) | _ \<Rightarrow> JNull)"
| "wire (JStr s) = JStr s"
| "wire (JArr xs) = JArr (map wire xs)"
| "wire (JObj kvs) = JObj (map (\<lambda>(k, v). (k, wire v)) kvs)"

subsection \<open>The completion service\<close>

text \<open>A call \<open>openai.chat.completions.create({model, messages, temperature, max_tokens})\<close>.
  The text of a prompt is a template literal; the model keeps the name of the template
  and the lists that are written into it, each line with its number \<open>i + 1\<close>, and
  whether writing them throws.  The wording of the templates and the digits of a number
  in a line are not modelled.  The three system messages are constants of the source.\<close>

datatype system_text = SentimentAssistantKo | KeywordAssistantKo | SentimentAssistantEn

datatype prompt =
    PromptEn "(nat \<times> json) list"
  | SentimentPrompt "(nat \<times> json) list"
  | KeywordPrompt "(nat \<times> json) list" "(nat \<times> json) list"

definition numbered :: "json list \<Rightarrow> (nat \<times> json) list" where
  "numbered xs = zip (map Suc [0..<length xs]) xs"

text \<open>\<open>xs.map((x, i) => `${i + 1}. ${x}`).join('\n')\<close>: the template literal converts every
  element to a string, which throws for an element that cannot be converted.\<close>

definition numbered_lines :: "json list \<Rightarrow> exn + (nat \<times> json) list" where
  "numbered_lines xs = (if list_ex conversion_throws xs then Inl TypeError else Inr (numbered xs))"

text \<open>The three templates: \<open>promptEn\<close> (lines 16-43), \<open>sentimentPrompt\<close> (lines 47-53)
  and \<open>keywordPrompt\<close> (lines 80-105), which writes the reviews and then the
  sentiments.\<close>

definition promptEn :: "json list \<Rightarrow> exn + prompt" where
  "promptEn rs = and_then (numbered_lines rs) (\<lambda>ls. Inr (PromptEn ls))"

definition sentimentPrompt :: "json list \<Rightarrow> exn + prompt" where
  "sentimentPrompt rs = and_then (numbered_lines rs) (\<lambda>ls. Inr (SentimentPrompt ls))"

definition keywordPrompt :: "json list \<Rightarrow> json list \<Rightarrow> exn + prompt" where
  "keywordPrompt rs sentiments =
     and_then (numbered_lines rs) (\<lambda>ls.
       and_then (numbered_lines sentiments) (\<lambda>ss. Inr (KeywordPrompt ls ss)))"

record chat_request =
  model :: string
  system_content :: system_text
  user_content :: prompt
  temperature :: rat
  max_tokens :: nat

text \<open>The service either rejects, or resolves to a completion, of which the route reads
  \<open>choices[i].message.content\<close> (a string or \<open>null\<close>).  Its answer may depend on the calls
  made before.\<close>

datatype reply = Rejects "string option" | Resolves "string option list"

type_synonym service = "chat_request list \<Rightarrow> chat_request \<Rightarrow> reply"

definition await :: "reply \<Rightarrow> exn + string option list" where
  "await r = (case r of Rejects m \<Rightarrow> Inl (Rejection m) | Resolves choices \<Rightarrow> Inr choices)"

definition create ::
    "service \<Rightarrow> chat_request \<Rightarrow> chat_request list \<Rightarrow> (exn + string option list) \<times> chat_request list" where
  "create svc rq calls = (await (svc calls rq), calls @ [rq])"

text \<open>\<open>completion.choices[0].message.content || ''\<close>\<close>

definition first_content :: "string option list \<Rightarrow> exn + string" where
  "first_content choices =
     (case choices of
        [] \<Rightarrow> Inl TypeError
      | c # _ \<Rightarrow> Inr (case c of None \<Rightarrow> [] | Some t \<Rightarrow> t))"

text \<open>The reply text that the route works with, or what the \<open>try\<close> block catches
  before there is one.\<close>

definition reply_text :: "reply \<Rightarrow> exn + string" where
  "reply_text r = and_then (await r) first_content"

subsection \<open>The handler\<close>

record env =
  OPENAI_API_KEY :: "string option"

text \<open>The body of the request, as far as the route reads it: \<open>const { reviews, locale } =
  await req.json()\<close>.  The body is a JSON object, as the interface of the route has it; a
  property that the body does not have is \<open>undefined\<close>.  A body that is no JSON text, or
  is \<open>null\<close>, makes line 7 throw before the first check of the handler and outside
  every \<open>try\<close>; no call has been made then, and the model does not go into it.  (The
  field of \<open>locale\<close> is \<open>req_locale\<close>.)\<close>

record request =
  reviews :: "json option"
  req_locale :: "json option"

record response =
  status :: nat
  body :: json

definition error_response :: "nat \<Rightarrow> string \<Rightarrow> response" where
  "error_response st msg = \<lparr>status = st, body = JObj [(''error'', JStr msg)]\<rparr>"

definition json_response :: "json \<Rightarrow> response" where
  "json_response j = \<lparr>status = 200, body = wire j\<rparr>"

text \<open>\<open>match ? JSON.parse(match[0]) : null\<close> (lines 66-67, 117-118, 144-145)\<close>

definition parse_match :: "string \<Rightarrow> exn + json" where
  "parse_match text =
     (case brace_span text of
        None \<Rightarrow> Inr JNull
      | Some m \<Rightarrow> (case json_parse m of None \<Rightarrow> Inl SyntaxError | Some j \<Rightarrow> Inr j))"

text \<open>Lines 68-74: the checks on the reply of the sentiment call.\<close>

definition sentiment_step :: "json list \<Rightarrow> string \<Rightarrow> exn + json list" where
  "sentiment_step rs sentimentText =
     and_then (parse_match sentimentText) (\<lambda>sentimentJson.
       if \<not> truthy_json sentimentJson \<or> \<not> is_array (get_prop sentimentJson ''sentiments'')
       then Inl (Error ''No valid sentiments array in OpenAI response'')
       else
         (case get_prop sentimentJson ''sentiments'' of
            Some (JArr sentiments) \<Rightarrow>
              if length sentiments \<noteq> length rs
              then Inl (Error ''Sentiment array length mismatch'')
              else Inr sentiments
          | _ \<Rightarrow> Inl (Error ''No valid sentiments array in OpenAI response'')))"

text \<open>The right-hand side of lines 122 and 125 (149 and 152):
  \<open>totalCount > 0 ? (count / totalCount) * 100 : 0\<close>, from the values of the two
  properties.  The comparison and the division convert their operands to numbers,
  which may throw.\<close>

definition fallback_percentage :: "json option \<Rightarrow> json option \<Rightarrow> exn + json" where
  "fallback_percentage totalCount cnt =
     and_then (to_number totalCount) (\<lambda>t.
       if js_gt t (Fin 0)
       then and_then (to_number cnt) (\<lambda>c.
              and_then (to_number totalCount) (\<lambda>t'.
                Inr (JNum (js_mul (js_div c t') (Fin 100)))))
       else Inr (JNum (Fin 0)))"

text \<open>Lines 121-123 and 124-126 (the same as 148-150 and 151-153), for the field
  \<open>positive\<close> with the count \<open>positiveCount\<close>, and for \<open>negative\<close> with
  \<open>negativeCount\<close>.\<close>

definition ensure_percentage :: "string \<Rightarrow> string \<Rightarrow> json \<Rightarrow> exn + json" where
  "ensure_percentage field cnt j =
     (if \<not> typeof_number (get_prop j field) \<or> js_isNaN (get_prop j field)
      then and_then (fallback_percentage (get_prop j ''totalCount'') (get_prop j cnt))
             (set_prop j field)
      else Inr j)"

definition ensure_percentages :: "json \<Rightarrow> exn + json" where
  "ensure_percentages j =
     and_then (ensure_percentage ''positive'' ''positiveCount'' j)
              (ensure_percentage ''negative'' ''negativeCount'')"

text \<open>Lines 117-119 and 144-146: the object in the reply text; \<open>no_json\<close> is the
  message of line 119 or of line 146.\<close>

definition extract_json :: "string \<Rightarrow> string \<Rightarrow> exn + json" where
  "extract_json no_json text =
     and_then (parse_match text) (\<lambda>j. if \<not> truthy_json j then Inl (Error no_json) else Inr j)"

text \<open>Lines 117-126 and 144-153: from the reply text to the object of the response.\<close>

definition analysis_step :: "string \<Rightarrow> string \<Rightarrow> exn + json" where
  "analysis_step no_json text = and_then (extract_json no_json text) ensure_percentages"

text \<open>The arguments of the three calls, from the prompt.\<close>

definition sentiment_call :: "prompt \<Rightarrow> chat_request" where
  "sentiment_call p =
     \<lparr>model = ''gpt-4.1-mini'', system_content = SentimentAssistantKo,
      user_content = p, temperature = 2 / 10, max_tokens = 512\<rparr>"

definition keyword_call :: "prompt \<Rightarrow> chat_request" where
  "keyword_call p =
     \<lparr>model = ''gpt-4.1-mini'', system_content = KeywordAssistantKo,
      user_content = p, temperature = 3 / 10, max_tokens = 2048\<rparr>"

definition single_call :: "json option \<Rightarrow> prompt \<Rightarrow> chat_request" where
  "single_call loc p =
     \<lparr>model = ''gpt-4.1-mini'',
      system_content =
        (if loc = Some (JStr ''ko'') then SentimentAssistantKo else SentimentAssistantEn),
      user_content = p, temperature = 3 / 10, max_tokens = 2048\<rparr>"

text \<open>The three calls for lists that can be written into the prompts.\<close>

definition sentiment_request :: "json list \<Rightarrow> chat_request" where
  "sentiment_request rs = sentiment_call (SentimentPrompt (numbered rs))"

definition keyword_request :: "json list \<Rightarrow> json list \<Rightarrow> chat_request" where
  "keyword_request rs sentiments =
     keyword_call (KeywordPrompt (numbered rs) (numbered sentiments))"

definition single_request :: "json option \<Rightarrow> json list \<Rightarrow> chat_request" where
  "single_request loc rs = single_call loc (PromptEn (numbered rs))"

text \<open>Lines 46-130, the branch of \<open>locale === 'ko'\<close>.  The two prompts are built outside
  the \<open>try\<close> blocks: what building them throws is not caught.\<close>

definition two_pass :: "service \<Rightarrow> json list \<Rightarrow> (exn + response) \<times> chat_request list" where
  "two_pass svc rs =
     (case sentimentPrompt rs of
        Inl ex \<Rightarrow> (Inl ex, [])
      | Inr sp \<Rightarrow>
          (case create svc (sentiment_call sp) [] of (r1, calls1) \<Rightarrow>
             (case and_then (and_then r1 first_content) (sentiment_step rs) of
                Inl err \<Rightarrow>
                  (Inr (error_response 500 (message_or err ''OpenAI sentiment step error'')),
                   calls1)
              | Inr sentiments \<Rightarrow>
                  (case keywordPrompt rs sentiments of
                     Inl ex \<Rightarrow> (Inl ex, calls1)
                   | Inr kp \<Rightarrow>
                       (case create svc (keyword_call kp) calls1 of (r2, calls2) \<Rightarrow>
                          (case and_then (and_then r2 first_content)
                                  (analysis_step ''No JSON in OpenAI keyword response'') of
                             Inl err \<Rightarrow>
                               (Inr (error_response 500
                                      (message_or err ''OpenAI keyword step error'')),
                                calls2)
                           | Inr keywordJson \<Rightarrow> (Inr (json_response keywordJson), calls2)))))))"

text \<open>Lines 132-157, the other branch, with the prompt of lines 16-43.\<close>

definition single_pass ::
    "service \<Rightarrow> json option \<Rightarrow> prompt \<Rightarrow> (exn + response) \<times> chat_request list" where
  "single_pass svc loc p =
     (case create svc (single_call loc p) [] of (r, calls1) \<Rightarrow>
        (case and_then (and_then r first_content) (analysis_step ''No JSON in OpenAI response'') of
           Inl err \<Rightarrow> (Inr (error_response 500 (message_or err ''OpenAI error'')), calls1)
         | Inr j \<Rightarrow> (Inr (json_response j), calls1)))"

definition elements :: "json option \<Rightarrow> json list" where
  "elements v = (case v of Some (JArr xs) \<Rightarrow> xs | _ \<Rightarrow> [])"

text \<open>The handler: its response (\<open>Inr\<close>), or the exception that it did not catch
  (\<open>Inl\<close>), and the calls made to the completion service.  \<open>promptEn\<close> is built for every
  locale, before the branch and outside every \<open>try\<close>.\<close>

definition POST :: "env \<Rightarrow> service \<Rightarrow> request \<Rightarrow> (exn + response) \<times> chat_request list" where
  "POST e svc req =
     (if \<not> (case OPENAI_API_KEY e of None \<Rightarrow> False | Some k \<Rightarrow> k \<noteq> [])
      then (Inr (error_response 500 ''OpenAI API key not set.''), [])
      else if \<not> truthy (reviews req) \<or> \<not> is_array (reviews req)
              \<or> length (elements (reviews req)) = 0
      then (Inr (error_response 400 ''No reviews provided.''), [])
      else
        (case promptEn (elements (reviews req)) of
           Inl ex \<Rightarrow> (Inl ex, [])
         | Inr p \<Rightarrow>
             if req_locale req = Some (JStr ''ko'')
             then two_pass svc (elements (reviews req))
             else single_pass svc (req_locale req) p))"

subsection \<open>What the specification asks of a result\<close>

text \<open>The specification's \<open>AnalysisResult\<close>: the six fields are there, and the two
  percentages are numbers between 0 and 100.\<close>

definition required_fields :: "string list" where
  "required_fields =
     [''totalCount'', ''positiveCount'', ''negativeCount'', ''positive'', ''negative'', ''keywords'']"

definition percentage_ok :: "json option \<Rightarrow> bool" where
  "percentage_ok v = (case v of Some (JNum (Fin r)) \<Rightarrow> 0 \<le> r \<and> r \<le> 100 | _ \<Rightarrow> False)"

definition well_formed_result :: "json \<Rightarrow> bool" where
  "well_formed_result j =
     (list_all (\<lambda>k. get_prop j k \<noteq> None) required_fields
      \<and> percentage_ok (get_prop j ''positive'') \<and> percentage_ok (get_prop j ''negative''))"

text \<open>A percentage field that is absent, not a number or \<open>NaN\<close>.\<close>

definition lacks_number :: "json option \<Rightarrow> bool" where
  "lacks_number v = (case v of Some (JNum n) \<Rightarrow> n = NaN | _ \<Rightarrow> True)"

text \<open>The specification's \<open>SentimentLabel\<close>.\<close>

definition is_sentiment_label :: "json \<Rightarrow> bool" where
  "is_sentiment_label v = (v = JStr ''positive'' \<or> v = JStr ''negative'')"

text \<open>The specification's index integrity: every index in the \<open>reviewIndices\<close> of a
  keyword is at least 0 and less than \<open>totalCount\<close>.\<close>

definition index_ok :: "json option \<Rightarrow> json \<Rightarrow> bool" where
  "index_ok tc i =
     (case (tc, i) of
        (Some (JNum (Fin t)), JNum (Fin r)) \<Rightarrow> 0 \<le> r \<and> r < t
      | _ \<Rightarrow> False)"

definition review_indices :: "json \<Rightarrow> json list" where
  "review_indices kw = (case get_prop kw ''reviewIndices'' of Some (JArr ixs) \<Rightarrow> ixs | _ \<Rightarrow> [])"

definition index_integrity :: "json \<Rightarrow> bool" where
  "index_integrity j =
     list_all (\<lambda>kw. list_all (index_ok (get_prop j ''totalCount'')) (review_indices kw))
       (elements (get_prop j ''keywords''))"

text \<open>A service for examples: it answers every call with the same reply text.\<close>

definition always :: "string \<Rightarrow> service" where
  "always text = (\<lambda>calls rq. Resolves [Some text])"

text \<open>A service for examples of the two calls of the branch \<open>ko\<close>: the first text answers
  the sentiment call, the second every other call.\<close>

definition staged :: "string \<Rightarrow> string \<Rightarrow> service" where
  "staged text1 text2 =
     (\<lambda>calls rq. Resolves [Some (if system_content rq = SentimentAssistantKo then text1 else text2)])"

text \<open>An environment and requests for examples: the key is set, and the batch is the
  one of the specification's end-to-end scenario.\<close>

definition example_env :: env where
  "example_env = \<lparr>OPENAI_API_KEY = Some ''sk-test''\<rparr>"

definition example_reviews :: "json list" where
  "example_reviews =
     [JStr ''Great build quality'', JStr ''Terrible delivery, very late'', JStr ''Love the design'']"

definition example_request :: "json option \<Rightarrow> request" where
  "example_request loc = \<lparr>reviews = Some (JArr example_reviews), req_locale = loc\<rparr>"

text \<open>Values that are written into a prompt without an exception: everything but an
  object with a property \<open>toString\<close> of its own, and an array that holds one.\<close>

definition writable :: "json list \<Rightarrow> bool" where
  "writable xs = (\<not> list_ex conversion_throws xs)"

text \<open>A review of the specification's batch is a string.\<close>

definition is_string :: "json \<Rightarrow> bool" where
  "is_string v = (case v of JStr s \<Rightarrow> True | _ \<Rightarrow> False)"

text \<open>The members of an object behind lines 121-123 (or 124-126), when nothing is
  thrown.\<close>

definition filled :: "string \<Rightarrow> string \<Rightarrow> (string \<times> json) list \<Rightarrow> exn + (string \<times> json) list" where
  "filled field cnt kvs =
     (if lacks_number (map_of kvs field)
      then and_then (fallback_percentage (map_of kvs ''totalCount'') (map_of kvs cnt))
             (\<lambda>v. Inr (obj_set field v kvs))
      else Inr kvs)"

section \<open>Properties\<close>

subsection \<open>The lexer always moves on\<close>

lemma lex_string_shorter: "lex_string acc cs = Some (s, r) \<Longrightarrow> length r < length cs"
proof (induction acc cs rule: lex_string.induct)
  case (1 acc)
  then show ?case by simp
next
  case (2 acc c cs)
  show ?case
  proof (cases "c = CHR 0x22")
    case True
    with "2.prems" show ?thesis by simp
  next
    case nq: False
    show ?thesis
    proof (cases "c = CHR 0x5C")
      case True
      with nq "2.prems" obtain e es where cs: "cs = e # es"
        by (cases cs) auto
      show ?thesis
      proof (cases "e = CHR ''u''")
        case u: True
        with nq True cs "2.prems" obtain n where n: "hex4 (take 4 es) = Some n"
          and l: "lex_string (rev (encode_unit n) @ acc) (drop 4 es) = Some (s, r)"
          by (auto split: option.splits if_splits)
        from "2.IH"(1)[OF nq True cs u n(1) l] show ?thesis
          using cs by simp
      next
        case nu: False
        with nq True cs "2.prems" obtain d where d: "simple_escape e = Some d"
          and l: "lex_string (d # acc) es = Some (s, r)"
          by (auto split: option.splits if_splits)
        from "2.IH"(2)[OF nq True cs nu d l] show ?thesis
          using cs by simp
      qed
    next
      case nb: False
      with nq "2.prems" have c32: "\<not> code_unit c < 32" and l: "lex_string (c # acc) cs = Some (s, r)"
        by (auto split: if_splits)
      from "2.IH"(3)[OF nq nb c32 l] show ?thesis by simp
    qed
  qed
qed

lemma lex_fraction_shorter: "lex_fraction cs = Some (fp, r) \<Longrightarrow> length r < length cs"
  by (auto simp: lex_fraction_def split: list.splits if_splits
      intro: le_imp_less_Suc length_dropWhile_le)

lemma lex_exponent_shorter: "lex_exponent cs = Some (ex, r) \<Longrightarrow> length r < length cs"
  by (auto simp: lex_exponent_def Let_def split: list.splits if_splits
      intro: le_imp_less_Suc length_dropWhile_le le_SucI)

lemma lex_number_shorter: "lex_number cs = Some (n, r) \<Longrightarrow> length r < length cs"
proof -
  assume a: "lex_number cs = Some (n, r)"
  define ip where "ip = (case cs of [] \<Rightarrow> [] | c # r \<Rightarrow> if c = CHR ''0'' then [c] else takeWhile is_digit cs)"
  define r0 where "r0 = drop (length ip) cs"
  define r1 where "r1 = (case lex_fraction r0 of None \<Rightarrow> r0 | Some p \<Rightarrow> snd p)"
  define r2 where "r2 = (case lex_exponent r1 of None \<Rightarrow> r1 | Some p \<Rightarrow> snd p)"
  from a have ip: "ip \<noteq> []" and r: "r = r2"
    by (auto simp: lex_number_def Let_def ip_def r0_def r1_def r2_def split: if_splits option.splits prod.splits)
  have "cs \<noteq> []" using ip by (auto simp: ip_def)
  then have "length r0 < length cs" using ip by (simp add: r0_def)
  moreover have "length r1 \<le> length r0"
    by (auto simp: r1_def split: option.splits dest: lex_fraction_shorter less_imp_le)
  moreover have "length r2 \<le> length r1"
    by (auto simp: r2_def split: option.splits dest: lex_exponent_shorter less_imp_le)
  ultimately show ?thesis using r by simp
qed

lemma strip_prefix_shorter: "p \<noteq> [] \<Longrightarrow> strip_prefix p cs = Some r \<Longrightarrow> length r < length cs"
  by (cases p; cases cs) (auto simp: strip_prefix_def split: if_splits)

lemma lex_token_shorter:
  assumes "lex_token cs = Some (t, r)"
  shows "length r < length cs"
proof (cases cs)
  case Nil
  with assms show ?thesis by (simp add: lex_token_def)
next
  case (Cons c cs')
  have lit: "length r < length cs" if "strip_prefix p cs = Some r" "p \<noteq> []" for p
    using that strip_prefix_shorter by blast
  from assms show ?thesis
    using Cons lit[of "''true''"] lit[of "''false''"] lit[of "''null''"]
    by (auto simp: lex_token_def split: if_splits
        dest: lex_string_shorter lex_number_shorter less_SucI)
qed

lemma tokenize_unfold:
  "tokenize cs =
     (case dropWhile is_ws cs of
        [] \<Rightarrow> Some []
      | c # r \<Rightarrow>
          (case lex_token (c # r) of
             None \<Rightarrow> None
           | Some (t, r') \<Rightarrow> map_option ((#) t) (tokenize r')))"
proof (cases "dropWhile is_ws cs")
  case Nil
  then show ?thesis by (subst tokenize.simps) (simp only: list.simps)
next
  case (Cons c r)
  show ?thesis
  proof (cases "lex_token (c # r)")
    case None
    with Cons show ?thesis by (subst tokenize.simps) (simp only: list.simps option.simps)
  next
    case (Some p)
    obtain t r' where p: "p = (t, r')" by (cases p)
    have "length r' < length (c # r)" using Some p by (auto dest: lex_token_shorter)
    also have "\<dots> \<le> length cs" using Cons length_dropWhile_le[of is_ws cs] by simp
    finally have "length r' < length cs" .
    with Cons Some p show ?thesis
      by (subst tokenize.simps) (simp only: list.simps option.simps prod.simps if_True)
  qed
qed

subsection \<open>A text that starts with a brace parses to an object\<close>

lemma value_start_stack: "value_start st t = Some (m, st') \<Longrightarrow> st' = st"
  by (auto simp: value_start_def split: token.splits)

lemma step_in_object:
  assumes "in_object s" "step s t = Some s'"
  shows "in_object s'"
proof -
  obtain m st where s: "s = (m, st)" by (cases s)
  obtain m' st' where s': "s' = (m', st')" by (cases s')
  show ?thesis
  proof (cases st)
    case Nil
    with assms s s' show ?thesis
      by (cases m)
         (auto simp: in_object_def step_def after_value_def value_start_def
               split: token.splits json.splits)
  next
    case (Cons f fs)
    show ?thesis
    proof (cases m)
      case WantValue
      with assms s s' Cons show ?thesis
        by (auto simp: in_object_def step_def dest!: value_start_stack)
    next
      case WantValueOrEnd
      with assms s s' Cons show ?thesis
        by (auto simp: in_object_def step_def split: token.splits dest!: value_start_stack)
    next
      case WantKeyOrEnd
      with assms s s' Cons show ?thesis
        by (auto simp: in_object_def step_def split: token.splits)
    next
      case (WantKey acc)
      with assms s s' Cons show ?thesis
        by (auto simp: in_object_def step_def split: token.splits)
    next
      case (WantColon acc k)
      with assms s s' Cons show ?thesis
        by (auto simp: in_object_def step_def split: token.splits)
    next
      case (AfterValue v)
      with assms s s' Cons show ?thesis
        by (cases f; cases fs)
           (auto simp: in_object_def step_def after_value_def split: token.splits)
    qed
  qed
qed

lemma run_in_object: "in_object s \<Longrightarrow> run s ts = Some s' \<Longrightarrow> in_object s'"
  by (induction ts arbitrary: s) (auto split: option.splits dest: step_in_object)

lemma tokenize_brace: "tokenize (CHR ''{'' # cs) = map_option ((#) LBrace) (tokenize cs)"
  by (subst tokenize_unfold) (simp add: is_ws_def lex_token_def)

lemma json_parse_brace_object:
  assumes "json_parse (CHR ''{'' # cs) = Some v"
  shows "\<exists>kvs. v = JObj kvs"
proof -
  from assms obtain ts where ts: "tokenize cs = Some ts"
    and r: "run (WantValue, []) (LBrace # ts) = Some (AfterValue v, [])"
    by (auto simp: json_parse_def tokenize_brace
        split: option.splits mode.splits list.splits prod.splits)
  from r have "run (WantKeyOrEnd, []) ts = Some (AfterValue v, [])"
    by (simp add: step_def value_start_def)
  moreover have "in_object (WantKeyOrEnd, [])" by (simp add: in_object_def)
  ultimately have "in_object (AfterValue v, [])" by (rule run_in_object[rotated])
  then show ?thesis by (cases v) (auto simp: in_object_def)
qed

subsection \<open>The span of the regular expression, and what is extracted\<close>

lemma brace_span_head: "brace_span t = Some m \<Longrightarrow> \<exists>r. m = CHR ''{'' # r"
proof -
  assume a: "brace_span t = Some m"
  then obtain c rest where d: "dropWhile (\<lambda>c. c \<noteq> CHR ''{'') t = c # rest"
    by (auto simp: brace_span_def split: list.splits)
  then have "c = CHR ''{''" using hd_dropWhile[of "\<lambda>c. c \<noteq> CHR ''{''" t] by auto
  with a d show ?thesis by (auto simp: brace_span_def split: if_splits)
qed

lemma parse_match_cases:
  "parse_match t = Inr j \<Longrightarrow> j = JNull \<or> (\<exists>kvs. j = JObj kvs)"
  by (auto simp: parse_match_def split: option.splits
      dest!: brace_span_head dest: json_parse_brace_object)

lemma extract_json_object: "extract_json msg t = Inr j \<Longrightarrow> \<exists>kvs. j = JObj kvs"
  by (auto simp: extract_json_def and_then_def split: sum.splits if_splits dest: parse_match_cases)

lemma dropWhile_upto: "x \<notin> set xs \<Longrightarrow> dropWhile (\<lambda>c. c \<noteq> x) (xs @ x # ys) = x # ys"
  by (induction xs) auto

lemma brace_span_greedy:
  assumes "CHR ''{'' \<notin> set pre" "CHR ''}'' \<notin> set post"
  shows "brace_span (pre @ CHR ''{'' # inner @ CHR ''}'' # post) = Some (CHR ''{'' # inner @ [CHR ''}''])"
proof -
  have 1: "dropWhile (\<lambda>c. c \<noteq> CHR ''{'') (pre @ CHR ''{'' # inner @ CHR ''}'' # post)
             = CHR ''{'' # inner @ CHR ''}'' # post"
    using assms(1) by (rule dropWhile_upto)
  have 2: "dropWhile (\<lambda>c. c \<noteq> CHR ''}'') (rev post @ CHR ''}'' # rev inner) = CHR ''}'' # rev inner"
    using assms(2) dropWhile_upto[of "CHR ''}''" "rev post" "rev inner"] by simp
  show ?thesis
    by (simp add: brace_span_def 1 upto_last_close_def 2)
qed

lemma brace_span_None_iff:
  "brace_span t = None \<longleftrightarrow> \<not> (\<exists>pre inner post. t = pre @ CHR ''{'' # inner @ CHR ''}'' # post)"
proof
  assume n: "brace_span t = None"
  show "\<not> (\<exists>pre inner post. t = pre @ CHR ''{'' # inner @ CHR ''}'' # post)"
  proof
    assume "\<exists>pre inner post. t = pre @ CHR ''{'' # inner @ CHR ''}'' # post"
    then obtain pre inner post where t: "t = pre @ CHR ''{'' # inner @ CHR ''}'' # post" by blast
    define p1 where "p1 = takeWhile (\<lambda>c. c \<noteq> CHR ''{'') t"
    define d1 where "d1 = dropWhile (\<lambda>c. c \<noteq> CHR ''{'') t"
    have "CHR ''{'' \<in> set t" using t by simp
    then have "d1 \<noteq> []" by (auto simp: d1_def)
    then obtain c rest where d: "d1 = c # rest" by (cases d1) auto
    have tsplit: "t = p1 @ d1" by (simp add: p1_def d1_def)
    have "length p1 \<le> length pre"
    proof (rule ccontr)
      assume "\<not> length p1 \<le> length pre"
      then have "length pre < length p1" by simp
      then have "p1 ! length pre = t ! length pre" by (simp add: tsplit nth_append)
      also have "\<dots> = CHR ''{''" by (simp add: t)
      finally have "CHR ''{'' \<in> set p1" using \<open>length pre < length p1\<close>
        by (metis nth_mem)
      then show False by (auto simp: p1_def dest: set_takeWhileD)
    qed
    then have "CHR ''}'' \<in> set (drop (Suc (length p1)) t)"
    proof -
      assume le: "length p1 \<le> length pre"
      have "drop (Suc (length p1)) t = drop (Suc (length p1)) pre @ drop (Suc (length p1) - length pre) (CHR ''{'' # inner @ CHR ''}'' # post)"
        by (simp add: t)
      moreover have "CHR ''}'' \<in> set (drop (Suc (length p1) - length pre) (CHR ''{'' # inner @ CHR ''}'' # post))"
      proof (cases "length p1 = length pre")
        case True
        then show ?thesis by simp
      next
        case False
        with le have "Suc (length p1) - length pre = 0" by simp
        then show ?thesis by simp
      qed
      ultimately show ?thesis by simp
    qed
    moreover have "drop (Suc (length p1)) t = rest" using d by (simp add: tsplit)
    ultimately have "CHR ''}'' \<in> set rest" by simp
    with n d show False by (simp add: brace_span_def d1_def)
  qed
next
  assume a: "\<not> (\<exists>pre inner post. t = pre @ CHR ''{'' # inner @ CHR ''}'' # post)"
  show "brace_span t = None"
  proof (rule ccontr)
    assume "brace_span t \<noteq> None"
    then obtain c rest where d: "dropWhile (\<lambda>c. c \<noteq> CHR ''{'') t = c # rest"
      and r: "CHR ''}'' \<in> set rest"
      by (auto simp: brace_span_def split: list.splits if_splits)
    have c: "c = CHR ''{''" using d hd_dropWhile[of "\<lambda>c. c \<noteq> CHR ''{''" t] by auto
    from r obtain inner post where "rest = inner @ CHR ''}'' # post" by (auto simp: in_set_conv_decomp)
    then have "t = takeWhile (\<lambda>c. c \<noteq> CHR ''{'') t @ CHR ''{'' # inner @ CHR ''}'' # post"
      using d c takeWhile_dropWhile_id[of "\<lambda>c. c \<noteq> CHR ''{''" t] by simp
    with a show False by blast
  qed
qed

subsection \<open>Rounding to a double\<close>

lemma round_half_even_le:
  assumes "0 < d" "n \<le> m * d"
  shows "round_half_even n d \<le> m"
proof -
  have "n div d \<le> (m * d) div d" using assms by (intro zdiv_mono1) auto
  then have f: "n div d \<le> m" using assms(1) by simp
  have "n div d + 1 \<le> m" if "n mod d \<noteq> 0"
  proof -
    have "n \<noteq> m * d" using that by auto
    with assms have "n < m * d" by simp
    have "n div d < m"
    proof (rule ccontr)
      assume "\<not> n div d < m"
      then have "m * d \<le> (n div d) * d" using assms(1) by (intro mult_right_mono) auto
      also have "\<dots> = n - n mod d" by (simp add: minus_mod_eq_div_mult)
      also have "\<dots> \<le> n" using assms(1) by simp
      finally show False using \<open>n < m * d\<close> by simp
    qed
    then show ?thesis by simp
  qed
  moreover have "n mod d \<noteq> 0" if "\<not> 2 * (n mod d) < d" using that assms(1) by auto
  ultimately show ?thesis using f by (auto simp: round_half_even_def Let_def)
qed

lemma round_half_even_nonneg: "0 < d \<Longrightarrow> 0 \<le> n \<Longrightarrow> 0 \<le> round_half_even n d"
  by (auto simp: round_half_even_def Let_def pos_imp_zdiv_nonneg_iff intro: add_nonneg_nonneg)

lemma ilog2_upper:
  assumes "0 < n" "0 < d" "n \<le> 128 * d"
  shows "ilog2 n d \<le> 7"
proof -
  define bn where "bn = bitlen n"
  define bd where "bd = bitlen d"
  have n1: "2 ^ nat (bn - 1) \<le> n" and d1: "d < 2 ^ nat bd"
    using bitlen_bounds[OF assms(1)] bitlen_bounds[OF assms(2)] by (simp_all add: bn_def bd_def)
  have bd0: "0 \<le> bd" by (simp add: bd_def bitlen_nonneg)
  have "bn - bd \<le> 8"
  proof (rule ccontr)
    assume "\<not> bn - bd \<le> 8"
    then have g: "bd + 8 \<le> bn - 1" by simp
    have "(128::int) * 2 ^ nat bd < 2 ^ nat (bd + 8)"
      using bd0 by (simp add: nat_add_distrib power_add)
    also have "\<dots> \<le> 2 ^ nat (bn - 1)" using g by (intro power_increasing) auto
    finally have "128 * 2 ^ nat bd < n" using n1 by simp
    moreover have "128 * d < 128 * 2 ^ nat bd" using d1 by simp
    ultimately show False using assms(3) by simp
  qed
  moreover have "bn - bd \<le> 7" if t: "0 \<le> bn - bd" "d * 2 ^ nat (bn - bd) \<le> n"
  proof (rule ccontr)
    assume "\<not> bn - bd \<le> 7"
    then have "8 \<le> nat (bn - bd)" by simp
    then have "(2::int) ^ 8 \<le> 2 ^ nat (bn - bd)" by (intro power_increasing) auto
    then have "d * 2 ^ 8 \<le> d * 2 ^ nat (bn - bd)" using assms(2) by (intro mult_left_mono) auto
    also note t(2)
    also note assms(3)
    finally show False using assms(2) by simp
  qed
  ultimately show ?thesis
    unfolding ilog2_def Let_def bn_def[symmetric] bd_def[symmetric]
    by (auto split: if_splits)
qed

lemma to_double_bounded:
  assumes "0 \<le> q" "q \<le> of_nat c" "c \<le> 128"
  shows "\<exists>v. to_double q = Fin v \<and> 0 \<le> v \<and> v \<le> of_nat c"
proof (cases "q = 0")
  case True
  then show ?thesis by (simp add: to_double_def)
next
  case False
  with assms have q: "0 < q" by simp
  obtain n d where nd: "quotient_of q = (n, d)" by (cases "quotient_of q")
  have d: "0 < d" using nd by (rule quotient_of_denom_pos)
  have qe: "q = of_int n / of_int d" using nd by (rule quotient_of_div)
  have n: "0 < n" using q d qe by (simp add: zero_less_divide_iff)
  have "of_int n \<le> (of_nat c :: rat) * of_int d"
    using assms(2) d qe by (simp add: pos_divide_le_eq)
  then have ncd: "n \<le> int c * d" by (metis of_int_le_iff of_int_mult of_int_of_nat_eq)
  also have "\<dots> \<le> 128 * d" using assms(3) d by simp
  finally have e: "ilog2 n d \<le> 7" using ilog2_upper[OF n d] by simp
  define p where "p = max (ilog2 n d) (- 1022) - 52"
  have p: "p < 0" using e by (simp add: p_def)
  define k where "k = round_half_even (n * 2 ^ nat (- p)) d"
  have "n * 2 ^ nat (- p) \<le> (int c * 2 ^ nat (- p)) * d"
    using ncd by (simp add: mult.assoc mult.left_commute mult_right_mono)
  then have k1: "k \<le> int c * 2 ^ nat (- p)" unfolding k_def using d by (intro round_half_even_le)
  have k0: "0 \<le> k" unfolding k_def using d n by (intro round_half_even_nonneg) auto
  define v :: rat where "v = of_int k / of_int (2 ^ nat (- p))"
  have v0: "0 \<le> v" using k0 by (simp add: v_def)
  have "of_int k \<le> (of_nat c :: rat) * of_int (2 ^ nat (- p))"
    using k1 by (metis of_int_le_iff of_int_mult of_int_of_nat_eq)
  then have v1: "v \<le> of_nat c" by (simp add: v_def pos_divide_le_eq)
  have "to_double q = Fin v"
    using False q e p nd
    by (simp add: to_double_def Let_def abs_of_pos p_def[symmetric] k_def[symmetric] v_def)
  with v0 v1 show ?thesis by blast
qed

subsection \<open>The percentage fields\<close>

lemma map_of_obj_set: "map_of (obj_set k v kvs) k' = (if k' = k then Some v else map_of kvs k')"
  by (induction kvs) auto

lemma needs_fallback_iff: "(\<not> typeof_number v \<or> js_isNaN v) = lacks_number v"
  by (auto simp: typeof_number_def js_isNaN_def lacks_number_def
      split: option.splits json.splits)

lemma to_number_simps:
  "to_number None = Inr NaN" "to_number (Some (JNum n)) = Inr n"
  "to_number (Some JNull) = Inr (Fin 0)" "to_number (Some (JBool b)) = Inr (Fin (if b then 1 else 0))"
  "to_number (Some (JObj kvs)) = (if map_of kvs ''toString'' \<noteq> None then Inl TypeError else Inr NaN)"
  by (simp_all add: to_number_def)

lemma to_number_cases: "to_number v = Inl TypeError \<or> (\<exists>n. to_number v = Inr n)"
  by (auto simp: to_number_def split: option.splits)

lemma fallback_total_throws:
  "to_number t = Inl ex \<Longrightarrow> fallback_percentage t c = Inl ex"
  by (simp add: fallback_percentage_def and_then_def)

lemma fallback_not_positive:
  "to_number t = Inr n \<Longrightarrow> \<not> js_gt n (Fin 0) \<Longrightarrow> fallback_percentage t c = Inr (JNum (Fin 0))"
  by (simp add: fallback_percentage_def and_then_def)

lemma fallback_count_throws:
  "to_number t = Inr n \<Longrightarrow> js_gt n (Fin 0) \<Longrightarrow> to_number c = Inl ex \<Longrightarrow>
   fallback_percentage t c = Inl ex"
  by (simp add: fallback_percentage_def and_then_def)

lemma fallback_value:
  "to_number t = Inr n \<Longrightarrow> js_gt n (Fin 0) \<Longrightarrow> to_number c = Inr m \<Longrightarrow>
   fallback_percentage t c = Inr (JNum (js_mul (js_div m n) (Fin 100)))"
  by (simp add: fallback_percentage_def and_then_def)

lemma fallback_Inr_number: "fallback_percentage t c = Inr v \<Longrightarrow> \<exists>n. v = JNum n"
  by (auto simp: fallback_percentage_def and_then_def split: sum.splits if_splits)

lemma fallback_numbers:
  assumes "0 < x"
  shows "fallback_percentage (Some (JNum (Fin x))) (Some (JNum (Fin y)))
           = Inr (JNum (js_mul (to_double (y / x)) (Fin 100)))"
proof -
  have "js_gt (Fin x) (Fin 0)" using assms by (simp add: js_gt_def)
  moreover have "js_div (Fin y) (Fin x) = to_double (y / x)" using assms by (simp add: js_div_def)
  ultimately show ?thesis
    using fallback_value[of "Some (JNum (Fin x))" "Fin x" "Some (JNum (Fin y))" "Fin y"]
    by (simp add: to_number_simps)
qed

lemma fallback_bounded:
  assumes "0 \<le> y" "y \<le> x" "0 < x"
  shows "\<exists>z. fallback_percentage (Some (JNum (Fin x))) (Some (JNum (Fin y))) = Inr (JNum (Fin z))
              \<and> 0 \<le> z \<and> z \<le> 100"
proof -
  have "0 \<le> y / x" "y / x \<le> of_nat 1" using assms by (simp_all add: divide_le_eq_1)
  from to_double_bounded[OF this] obtain v where
    v: "to_double (y / x) = Fin v" "0 \<le> v" "v \<le> 1" by auto
  have "0 \<le> v * 100" "v * 100 \<le> of_nat 100" using v by simp_all
  from to_double_bounded[OF this] obtain z where
    z: "to_double (v * 100) = Fin z" "0 \<le> z" "z \<le> 100" by auto
  have "js_mul (to_double (y / x)) (Fin 100) = Fin z" using v z by (simp add: js_mul_def)
  with z fallback_numbers[OF assms(3), of y] show ?thesis by simp
qed

lemma ensure_percentage_object:
  "ensure_percentage field cnt (JObj kvs) = and_then (filled field cnt kvs) (\<lambda>k. Inr (JObj k))"
  using needs_fallback_iff[of "map_of kvs field"]
  by (simp add: ensure_percentage_def set_prop_def filled_def and_then_def split: sum.splits)

lemma ensure_percentage_array: "ensure_percentage field cnt (JArr xs) = Inr (JArr xs)"
  by (auto simp: ensure_percentage_def set_prop_def typeof_number_def and_then_def
      fallback_percentage_def to_number_simps js_gt_def)

lemma filled_Inr:
  assumes "filled field cnt kvs = Inr k"
  shows "(\<forall>g. g \<noteq> field \<longrightarrow> map_of k g = map_of kvs g)
         \<and> (\<not> lacks_number (map_of kvs field) \<longrightarrow> k = kvs)
         \<and> (lacks_number (map_of kvs field) \<longrightarrow>
              (\<exists>v. fallback_percentage (map_of kvs ''totalCount'') (map_of kvs cnt) = Inr v
                    \<and> map_of k field = Some v))"
proof (cases "lacks_number (map_of kvs field)")
  case False
  with assms show ?thesis by (simp add: filled_def)
next
  case True
  with assms obtain v where
    v: "fallback_percentage (map_of kvs ''totalCount'') (map_of kvs cnt) = Inr v"
    and k: "k = obj_set field v kvs"
    by (auto simp: filled_def and_then_def split: sum.splits)
  with True show ?thesis by (simp add: map_of_obj_set)
qed

lemma ensure_percentages_object:
  "ensure_percentages (JObj kvs) = Inr j' \<longleftrightarrow>
     (\<exists>k1 k2. filled ''positive'' ''positiveCount'' kvs = Inr k1
        \<and> filled ''negative'' ''negativeCount'' k1 = Inr k2 \<and> j' = JObj k2)"
  by (auto simp: ensure_percentages_def ensure_percentage_object and_then_def split: sum.splits)

lemma ensure_percentages_shape:
  assumes "ensure_percentages (JObj kvs) = Inr j'"
  shows "\<exists>kvs'. j' = JObj kvs'
      \<and> (\<forall>g. g \<noteq> ''positive'' \<and> g \<noteq> ''negative'' \<longrightarrow> map_of kvs' g = map_of kvs g)
      \<and> (\<not> lacks_number (map_of kvs ''positive'') \<longrightarrow>
           map_of kvs' ''positive'' = map_of kvs ''positive'')
      \<and> (\<not> lacks_number (map_of kvs ''negative'') \<longrightarrow>
           map_of kvs' ''negative'' = map_of kvs ''negative'')
      \<and> (\<not> lacks_number (map_of kvs ''positive'') \<and> \<not> lacks_number (map_of kvs ''negative'')
           \<longrightarrow> kvs' = kvs)
      \<and> (lacks_number (map_of kvs ''positive'') \<longrightarrow>
           (\<exists>v. fallback_percentage (map_of kvs ''totalCount'') (map_of kvs ''positiveCount'') = Inr v
                 \<and> map_of kvs' ''positive'' = Some v))
      \<and> (lacks_number (map_of kvs ''negative'') \<longrightarrow>
           (\<exists>v. fallback_percentage (map_of kvs ''totalCount'') (map_of kvs ''negativeCount'') = Inr v
                 \<and> map_of kvs' ''negative'' = Some v))"
proof -
  from assms obtain k1 k2 where
    a: "filled ''positive'' ''positiveCount'' kvs = Inr k1"
    and b: "filled ''negative'' ''negativeCount'' k1 = Inr k2" and j': "j' = JObj k2"
    by (auto simp: ensure_percentages_object)
  note fa = filled_Inr[OF a]
  note fb = filled_Inr[OF b]
  have k1: "map_of k1 ''negative'' = map_of kvs ''negative''"
    "map_of k1 ''totalCount'' = map_of kvs ''totalCount''"
    "map_of k1 ''negativeCount'' = map_of kvs ''negativeCount''"
    using fa by simp_all
  have 1: "\<forall>g. g \<noteq> ''positive'' \<and> g \<noteq> ''negative'' \<longrightarrow> map_of k2 g = map_of kvs g"
    using fa fb by simp
  have pos: "map_of k2 ''positive'' = map_of k1 ''positive''" using fb by simp
  have 2: "\<not> lacks_number (map_of kvs ''positive'') \<longrightarrow> map_of k2 ''positive'' = map_of kvs ''positive''"
    using fa pos by auto
  have 3: "\<not> lacks_number (map_of kvs ''negative'') \<longrightarrow> map_of k2 ''negative'' = map_of kvs ''negative''"
    using fb k1 by auto
  have 4: "\<not> lacks_number (map_of kvs ''positive'') \<and> \<not> lacks_number (map_of kvs ''negative'')
           \<longrightarrow> k2 = kvs"
    using fa fb k1 by auto
  have 5: "lacks_number (map_of kvs ''positive'') \<longrightarrow>
           (\<exists>v. fallback_percentage (map_of kvs ''totalCount'') (map_of kvs ''positiveCount'') = Inr v
                 \<and> map_of k2 ''positive'' = Some v)"
    using fa pos by auto
  have 6: "lacks_number (map_of kvs ''negative'') \<longrightarrow>
           (\<exists>v. fallback_percentage (map_of kvs ''totalCount'') (map_of kvs ''negativeCount'') = Inr v
                 \<and> map_of k2 ''negative'' = Some v)"
    using fb k1 by auto
  from j' 1 2 3 4 5 6 show ?thesis by blast
qed

text \<open>The fallback divides whatever \<open>ToNumber\<close> makes of the count: for an object with
  a \<open>totalCount\<close> of 4 and no \<open>positiveCount\<close> it is \<open>undefined / 4 * 100\<close>, which is
  \<open>NaN\<close>, and \<open>NaN\<close> is written \<open>null\<close>.\<close>

lemma fallback_of_missing_count:
  "ensure_percentages (JObj [(''totalCount'', JNum (Fin 4))])
     = Inr (JObj [(''totalCount'', JNum (Fin 4)), (''positive'', JNum NaN), (''negative'', JNum NaN)])"
  "wire (JObj [(''totalCount'', JNum (Fin 4)), (''positive'', JNum NaN), (''negative'', JNum NaN)])
     = JObj [(''totalCount'', JNum (Fin 4)), (''positive'', JNull), (''negative'', JNull)]"
  by code_simp+

lemma analysis_step_Inr:
  "analysis_step msg t = Inr j' \<longleftrightarrow>
     (\<exists>kvs. extract_json msg t = Inr (JObj kvs) \<and> ensure_percentages (JObj kvs) = Inr j')"
  by (auto simp: analysis_step_def and_then_def split: sum.splits dest: extract_json_object)

lemma message_or_nonempty: "fallback \<noteq> [] \<Longrightarrow> message_or e fallback \<noteq> []"
  by (auto simp: message_or_def split: option.splits)

subsection \<open>What is written as the body\<close>

lemma get_prop_wire: "get_prop (wire (JObj kvs)) k = map_option wire (map_of kvs k)"
  by (induction kvs) auto

lemma wire_number: "wire (JNum (Fin x)) = JNum (Fin x)"
  by simp

subsection \<open>The prompts\<close>

lemma numbered_lines_writable: "writable xs \<Longrightarrow> numbered_lines xs = Inr (numbered xs)"
  by (simp add: numbered_lines_def writable_def)

lemma numbered_lines_throws: "\<not> writable xs \<Longrightarrow> numbered_lines xs = Inl TypeError"
  by (simp add: numbered_lines_def writable_def)

lemma prompts_writable:
  assumes "writable rs"
  shows "promptEn rs = Inr (PromptEn (numbered rs))"
    and "sentimentPrompt rs = Inr (SentimentPrompt (numbered rs))"
    and "writable ss \<Longrightarrow> keywordPrompt rs ss = Inr (KeywordPrompt (numbered rs) (numbered ss))"
    and "\<not> writable ss \<Longrightarrow> keywordPrompt rs ss = Inl TypeError"
  using assms
  by (simp_all add: promptEn_def sentimentPrompt_def keywordPrompt_def and_then_def
      numbered_lines_writable numbered_lines_throws)

lemma promptEn_throws: "\<not> writable rs \<Longrightarrow> promptEn rs = Inl TypeError"
  by (simp add: promptEn_def and_then_def numbered_lines_throws)

lemma strings_writable: "list_all is_string xs \<Longrightarrow> writable xs"
  by (induction xs) (auto simp: writable_def is_string_def split: json.splits)

lemma primitives_writable:
  "list_all (\<lambda>x. case x of JObj kvs \<Rightarrow> False | JArr ys \<Rightarrow> False | _ \<Rightarrow> True) xs \<Longrightarrow> writable xs"
  by (induction xs) (auto simp: writable_def split: json.splits)

lemma numbered_parts:
  "map snd (numbered xs) = xs" "map fst (numbered xs) = [1..<Suc (length xs)]"
proof -
  show "map snd (numbered xs) = xs" by (simp add: numbered_def)
  have "map fst (numbered xs) = map Suc [0..<length xs]" by (simp add: numbered_def)
  also have "\<dots> = [Suc 0..<Suc (length xs)]" by (rule map_Suc_upt)
  finally show "map fst (numbered xs) = [1..<Suc (length xs)]" by simp
qed

subsection \<open>The requests, and the checks on the sentiment reply\<close>

lemma requests_differ:
  "single_request l b \<noteq> sentiment_request b'" "single_request l b \<noteq> keyword_request b' ss"
  "sentiment_request b \<noteq> keyword_request b' ss"
proof -
  have "user_content (single_request l b) \<noteq> user_content (sentiment_request b')"
    by (simp add: single_request_def sentiment_request_def single_call_def sentiment_call_def)
  then show "single_request l b \<noteq> sentiment_request b'" by auto
  have "user_content (single_request l b) \<noteq> user_content (keyword_request b' ss)"
    by (simp add: single_request_def keyword_request_def single_call_def keyword_call_def)
  then show "single_request l b \<noteq> keyword_request b' ss" by auto
  have "user_content (sentiment_request b) \<noteq> user_content (keyword_request b' ss)"
    by (simp add: sentiment_request_def keyword_request_def sentiment_call_def keyword_call_def)
  then show "sentiment_request b \<noteq> keyword_request b' ss" by auto
qed

lemma request_prompts:
  "user_content (sentiment_request rs) = SentimentPrompt (numbered rs)"
  "user_content (keyword_request rs ss) = KeywordPrompt (numbered rs) (numbered ss)"
  "user_content (single_request l rs) = PromptEn (numbered rs)"
  by (simp_all add: sentiment_request_def keyword_request_def single_request_def
      sentiment_call_def keyword_call_def single_call_def)

lemma sentiment_step_Inr:
  "sentiment_step rs content = Inr ss \<longleftrightarrow>
     (\<exists>j. parse_match content = Inr j \<and> get_prop j ''sentiments'' = Some (JArr ss)
          \<and> length ss = length rs)"
proof
  assume a: "sentiment_step rs content = Inr ss"
  then obtain j where j: "parse_match content = Inr j"
    by (cases "parse_match content") (auto simp: sentiment_step_def and_then_def)
  with a show "\<exists>j. parse_match content = Inr j \<and> get_prop j ''sentiments'' = Some (JArr ss)
          \<and> length ss = length rs"
    by (auto simp: sentiment_step_def and_then_def is_array_def
        split: if_splits option.splits json.splits)
next
  assume "\<exists>j. parse_match content = Inr j \<and> get_prop j ''sentiments'' = Some (JArr ss)
          \<and> length ss = length rs"
  then obtain j where j: "parse_match content = Inr j" "get_prop j ''sentiments'' = Some (JArr ss)"
    "length ss = length rs" by blast
  from j(2) obtain kvs where "j = JObj kvs" by (cases j) auto
  with j show "sentiment_step rs content = Inr ss"
    by (simp add: sentiment_step_def and_then_def is_array_def)
qed

lemma sentiment_step_mismatch:
  assumes "parse_match content = Inr j" "get_prop j ''sentiments'' = Some (JArr ss)"
    "length ss \<noteq> length rs"
  shows "sentiment_step rs content = Inl (Error ''Sentiment array length mismatch'')"
proof -
  from assms(2) obtain kvs where "j = JObj kvs" by (cases j) auto
  with assms show ?thesis by (simp add: sentiment_step_def and_then_def is_array_def)
qed

subsection \<open>The handler, branch by branch\<close>

lemma single_pass_eq:
  "single_pass svc loc (PromptEn (numbered rs)) =
     ((case and_then (reply_text (svc [] (single_request loc rs)))
                     (analysis_step ''No JSON in OpenAI response'') of
         Inl err \<Rightarrow> Inr (error_response 500 (message_or err ''OpenAI error''))
       | Inr j \<Rightarrow> Inr (json_response j)),
      [single_request loc rs])"
  by (simp add: single_pass_def create_def reply_text_def single_request_def split: sum.splits)

lemma two_pass_eq:
  assumes "writable rs"
  shows "two_pass svc rs =
     (case and_then (reply_text (svc [] (sentiment_request rs))) (sentiment_step rs) of
        Inl err \<Rightarrow>
          (Inr (error_response 500 (message_or err ''OpenAI sentiment step error'')),
           [sentiment_request rs])
      | Inr sentiments \<Rightarrow>
          if writable sentiments then
            ((case and_then (reply_text (svc [sentiment_request rs] (keyword_request rs sentiments)))
                          (analysis_step ''No JSON in OpenAI keyword response'') of
                Inl err \<Rightarrow> Inr (error_response 500 (message_or err ''OpenAI keyword step error''))
              | Inr keywordJson \<Rightarrow> Inr (json_response keywordJson)),
             [sentiment_request rs, keyword_request rs sentiments])
          else (Inl TypeError, [sentiment_request rs]))"
proof (cases "and_then (reply_text (svc [] (sentiment_request rs))) (sentiment_step rs)")
  case (Inl err)
  then show ?thesis
    by (simp add: two_pass_def create_def reply_text_def prompts_writable(2)[OF assms]
        sentiment_request_def)
next
  case (Inr ss)
  show ?thesis
  proof (cases "writable ss")
    case False
    with Inr show ?thesis
      by (simp add: two_pass_def create_def reply_text_def prompts_writable(2)[OF assms]
          prompts_writable(4)[OF assms] sentiment_request_def)
  next
    case True
    show ?thesis
    proof (cases "and_then (reply_text (svc [sentiment_request rs] (keyword_request rs ss)))
                          (analysis_step ''No JSON in OpenAI keyword response'')")
      case (Inl err)
      with Inr True show ?thesis
        by (simp add: two_pass_def create_def reply_text_def prompts_writable(2)[OF assms]
            prompts_writable(3)[OF assms] sentiment_request_def keyword_request_def)
    next
      case j: (Inr j)
      with Inr True show ?thesis
        by (simp add: two_pass_def create_def reply_text_def prompts_writable(2)[OF assms]
            prompts_writable(3)[OF assms] sentiment_request_def keyword_request_def)
    qed
  qed
qed

lemma POST_no_key:
  "OPENAI_API_KEY e = None \<or> OPENAI_API_KEY e = Some [] \<Longrightarrow>
   POST e svc req = (Inr (error_response 500 ''OpenAI API key not set.''), [])"
  by (auto simp: POST_def)

lemma batch_rejected_iff:
  "(\<not> truthy v \<or> \<not> is_array v \<or> length (elements v) = 0) \<longleftrightarrow>
   \<not> (\<exists>rs. v = Some (JArr rs) \<and> rs \<noteq> [])"
  by (auto simp: truthy_def is_array_def elements_def split: option.splits json.splits)

lemma POST_no_batch:
  assumes "OPENAI_API_KEY e = Some k" "k \<noteq> []" "\<not> (\<exists>rs. reviews req = Some (JArr rs) \<and> rs \<noteq> [])"
  shows "POST e svc req = (Inr (error_response 400 ''No reviews provided.''), [])"
  using assms batch_rejected_iff[of "reviews req"] by (simp add: POST_def)

lemma POST_valid:
  assumes "OPENAI_API_KEY e = Some k" "k \<noteq> []" "reviews req = Some (JArr rs)" "rs \<noteq> []"
  shows "POST e svc req =
           (if \<not> writable rs then (Inl TypeError, [])
            else if req_locale req = Some (JStr ''ko'') then two_pass svc rs
            else single_pass svc (req_locale req) (PromptEn (numbered rs)))"
proof (cases "writable rs")
  case True
  with assms show ?thesis
    by (simp add: POST_def truthy_def is_array_def elements_def prompts_writable(1))
next
  case False
  with assms show ?thesis
    by (simp add: POST_def truthy_def is_array_def elements_def promptEn_throws)
qed

lemma status_simps:
  "status (error_response st m) = st" "status (json_response j) = 200"
  "body (error_response st m) = JObj [(''error'', JStr m)]" "body (json_response j) = wire j"
  by (simp_all add: error_response_def json_response_def)

lemma error_500_nonempty:
  "fb \<noteq> [] \<Longrightarrow> \<exists>m. m \<noteq> [] \<and> error_response 500 (message_or x fb) = error_response 500 m"
  by (rule exI[of _ "message_or x fb"]) (simp add: message_or_nonempty)

lemma single_pass_answers:
  assumes "fst (single_pass svc loc (PromptEn (numbered rs))) = r"
  shows "\<exists>resp. r = Inr resp \<and> (status resp = 200 \<or> (\<exists>m. m \<noteq> [] \<and> resp = error_response 500 m))"
proof (cases "and_then (reply_text (svc [] (single_request loc rs)))
                     (analysis_step ''No JSON in OpenAI response'')")
  case (Inl err)
  with assms have "r = Inr (error_response 500 (message_or err ''OpenAI error''))"
    by (simp add: single_pass_eq)
  with error_500_nonempty[of "''OpenAI error''" err] show ?thesis by auto
next
  case (Inr j)
  with assms have "r = Inr (json_response j)" by (simp add: single_pass_eq)
  then show ?thesis by (simp add: status_simps)
qed

lemma two_pass_answers:
  assumes "writable rs" "fst (two_pass svc rs) = Inr resp"
  shows "status resp = 200 \<or> (\<exists>m. m \<noteq> [] \<and> resp = error_response 500 m)"
proof (cases "and_then (reply_text (svc [] (sentiment_request rs))) (sentiment_step rs)")
  case (Inl err)
  with assms have "resp = error_response 500 (message_or err ''OpenAI sentiment step error'')"
    by (simp add: two_pass_eq)
  with error_500_nonempty[of "''OpenAI sentiment step error''" err] show ?thesis by auto
next
  case (Inr ss)
  show ?thesis
  proof (cases "writable ss")
    case False
    with Inr assms show ?thesis by (simp add: two_pass_eq)
  next
    case True
    show ?thesis
    proof (cases "and_then (reply_text (svc [sentiment_request rs] (keyword_request rs ss)))
                          (analysis_step ''No JSON in OpenAI keyword response'')")
      case (Inl err)
      with Inr True assms
      have "resp = error_response 500 (message_or err ''OpenAI keyword step error'')"
        by (simp add: two_pass_eq)
      with error_500_nonempty[of "''OpenAI keyword step error''" err] show ?thesis by auto
    next
      case j: (Inr j)
      with Inr True assms have "resp = json_response j" by (simp add: two_pass_eq)
      then show ?thesis by (simp add: status_simps)
    qed
  qed
qed

lemma POST_valid_answers:
  assumes "OPENAI_API_KEY e = Some k" "k \<noteq> []" "reviews req = Some (JArr rs)" "rs \<noteq> []"
    and "POST e svc req = (Inr resp, calls)"
  shows "writable rs \<and> (status resp = 200 \<or> (\<exists>m. m \<noteq> [] \<and> resp = error_response 500 m))"
proof -
  note v = POST_valid[OF assms(1-4), of svc]
  have w: "writable rs"
  proof (rule ccontr)
    assume "\<not> writable rs"
    with v assms(5) show False by simp
  qed
  show ?thesis
  proof (cases "req_locale req = Some (JStr ''ko'')")
    case True
    with v w assms(5) have "two_pass svc rs = (Inr resp, calls)" by simp
    then have "fst (two_pass svc rs) = Inr resp" by simp
    from two_pass_answers[OF w this] w show ?thesis by simp
  next
    case False
    with v w assms(5)
    have "single_pass svc (req_locale req) (PromptEn (numbered rs)) = (Inr resp, calls)" by simp
    then have "fst (single_pass svc (req_locale req) (PromptEn (numbered rs))) = Inr resp" by simp
    from single_pass_answers[OF this] w show ?thesis by simp
  qed
qed

lemma POST_success:
  assumes "POST e svc req = (Inr resp, calls)" "status resp = 200"
  shows "calls \<noteq> [] \<and> (\<exists>content msg kvs j'.
           reply_text (svc (butlast calls) (last calls)) = Inr content
           \<and> extract_json msg content = Inr (JObj kvs)
           \<and> ensure_percentages (JObj kvs) = Inr j'
           \<and> body resp = wire j')"
proof -
  have key: "\<exists>k. OPENAI_API_KEY e = Some k \<and> k \<noteq> []"
  proof (rule ccontr)
    assume "\<not> (\<exists>k. OPENAI_API_KEY e = Some k \<and> k \<noteq> [])"
    then have "OPENAI_API_KEY e = None \<or> OPENAI_API_KEY e = Some []"
      by (cases "OPENAI_API_KEY e") simp_all
    from POST_no_key[OF this, of svc req] assms show False by (auto simp: status_simps)
  qed
  then obtain k where k: "OPENAI_API_KEY e = Some k" "k \<noteq> []" by blast
  have "\<exists>rs. reviews req = Some (JArr rs) \<and> rs \<noteq> []"
  proof (rule ccontr)
    assume "\<not> (\<exists>rs. reviews req = Some (JArr rs) \<and> rs \<noteq> [])"
    from POST_no_batch[OF k this, of svc] assms show False by (auto simp: status_simps)
  qed
  then obtain rs where rs: "reviews req = Some (JArr rs)" "rs \<noteq> []" by blast
  note v = POST_valid[OF k rs, of svc]
  from POST_valid_answers[OF k rs assms(1)] have w: "writable rs" by simp
  show ?thesis
  proof (cases "req_locale req = Some (JStr ''ko'')")
    case True
    with v w assms(1) have t: "two_pass svc rs = (Inr resp, calls)" by simp
    show ?thesis
    proof (cases "and_then (reply_text (svc [] (sentiment_request rs))) (sentiment_step rs)")
      case (Inl err)
      with t assms(2) show ?thesis by (auto simp: two_pass_eq[OF w] status_simps)
    next
      case (Inr ss)
      show ?thesis
      proof (cases "writable ss")
        case False
        with Inr t show ?thesis by (simp add: two_pass_eq[OF w])
      next
        case ws: True
        show ?thesis
        proof (cases "and_then (reply_text (svc [sentiment_request rs] (keyword_request rs ss)))
                          (analysis_step ''No JSON in OpenAI keyword response'')")
          case (Inl err)
          with Inr ws t assms(2) show ?thesis by (auto simp: two_pass_eq[OF w] status_simps)
        next
          case j: (Inr j)
          then obtain content where
            tx: "reply_text (svc [sentiment_request rs] (keyword_request rs ss)) = Inr content"
            and an: "analysis_step ''No JSON in OpenAI keyword response'' content = Inr j"
            by (auto simp: and_then_def split: sum.splits)
          from Inr ws j t have r: "resp = json_response j"
            and c: "calls = [sentiment_request rs, keyword_request rs ss]"
            by (auto simp: two_pass_eq[OF w])
          from an obtain kvs where
            "extract_json ''No JSON in OpenAI keyword response'' content = Inr (JObj kvs)"
            "ensure_percentages (JObj kvs) = Inr j"
            by (auto simp: analysis_step_Inr)
          with tx r c show ?thesis by (auto simp: status_simps)
        qed
      qed
    qed
  next
    case False
    with v w assms(1)
    have t: "single_pass svc (req_locale req) (PromptEn (numbered rs)) = (Inr resp, calls)" by simp
    show ?thesis
    proof (cases "and_then (reply_text (svc [] (single_request (req_locale req) rs)))
                     (analysis_step ''No JSON in OpenAI response'')")
      case (Inl err)
      with t assms(2) show ?thesis by (auto simp: single_pass_eq status_simps)
    next
      case j: (Inr j)
      then obtain content where
        tx: "reply_text (svc [] (single_request (req_locale req) rs)) = Inr content"
        and an: "analysis_step ''No JSON in OpenAI response'' content = Inr j"
        by (auto simp: and_then_def split: sum.splits)
      from j t have r: "resp = json_response j" and c: "calls = [single_request (req_locale req) rs]"
        by (auto simp: single_pass_eq)
      from an obtain kvs where
        "extract_json ''No JSON in OpenAI response'' content = Inr (JObj kvs)"
        "ensure_percentages (JObj kvs) = Inr j"
        by (auto simp: analysis_step_Inr)
      with tx r c show ?thesis by (auto simp: status_simps)
    qed
  qed
qed

subsection \<open>Further facts on the normalizer and on the body\<close>

lemma written_percentage:
  assumes e: "ensure_percentages (JObj kvs) = Inr j'"
    and fc: "(f, c) = (''positive'', ''positiveCount'') \<or> (f, c) = (''negative'', ''negativeCount'')"
  shows "get_prop (wire j') f \<noteq> None
    \<and> (\<forall>x. map_of kvs f = Some (JNum (Fin x)) \<longrightarrow> get_prop (wire j') f = Some (JNum (Fin x)))
    \<and> (lacks_number (map_of kvs f)
         \<and> (\<exists>n. to_number (map_of kvs ''totalCount'') = Inr n \<and> \<not> js_gt n (Fin 0))
         \<longrightarrow> get_prop (wire j') f = Some (JNum (Fin 0)))
    \<and> (lacks_number (map_of kvs f)
         \<and> (\<exists>t p. map_of kvs ''totalCount'' = Some (JNum (Fin t)) \<and> map_of kvs c = Some (JNum (Fin p))
                  \<and> 0 \<le> p \<and> p \<le> t \<and> 0 < t)
         \<longrightarrow> percentage_ok (get_prop (wire j') f))"
proof -
  from ensure_percentages_shape[OF e] obtain kvs' where j': "j' = JObj kvs'"
    and keep: "\<not> lacks_number (map_of kvs f) \<longrightarrow> map_of kvs' f = map_of kvs f"
    and fill: "lacks_number (map_of kvs f) \<longrightarrow>
           (\<exists>v. fallback_percentage (map_of kvs ''totalCount'') (map_of kvs c) = Inr v
                 \<and> map_of kvs' f = Some v)"
    using fc by auto
  have w: "get_prop (wire j') f = map_option wire (map_of kvs' f)"
    unfolding j' by (rule get_prop_wire)
  have 1: "get_prop (wire j') f \<noteq> None"
  proof (cases "lacks_number (map_of kvs f)")
    case True
    with fill w show ?thesis by auto
  next
    case False
    then have "map_of kvs f \<noteq> None" by (auto simp: lacks_number_def split: option.splits)
    with False keep w show ?thesis by auto
  qed
  have 2: "get_prop (wire j') f = Some (JNum (Fin x))" if "map_of kvs f = Some (JNum (Fin x))" for x
  proof -
    from that have "\<not> lacks_number (map_of kvs f)" by (simp add: lacks_number_def)
    with keep that w show ?thesis by simp
  qed
  have 3: "get_prop (wire j') f = Some (JNum (Fin 0))"
    if l: "lacks_number (map_of kvs f)"
      and n: "\<exists>n. to_number (map_of kvs ''totalCount'') = Inr n \<and> \<not> js_gt n (Fin 0)"
  proof -
    from n obtain n where "to_number (map_of kvs ''totalCount'') = Inr n" "\<not> js_gt n (Fin 0)"
      by blast
    then have "fallback_percentage (map_of kvs ''totalCount'') (map_of kvs c) = Inr (JNum (Fin 0))"
      by (rule fallback_not_positive)
    with fill l have "map_of kvs' f = Some (JNum (Fin 0))" by auto
    with w show ?thesis by simp
  qed
  have 4: "percentage_ok (get_prop (wire j') f)"
    if l: "lacks_number (map_of kvs f)"
      and n: "\<exists>t p. map_of kvs ''totalCount'' = Some (JNum (Fin t)) \<and> map_of kvs c = Some (JNum (Fin p))
                  \<and> 0 \<le> p \<and> p \<le> t \<and> 0 < t"
  proof -
    from n obtain t p where tp: "map_of kvs ''totalCount'' = Some (JNum (Fin t))"
      "map_of kvs c = Some (JNum (Fin p))" "0 \<le> p" "p \<le> t" "0 < t" by blast
    from fallback_bounded[OF tp(3-5)] obtain z where
      z: "fallback_percentage (Some (JNum (Fin t))) (Some (JNum (Fin p))) = Inr (JNum (Fin z))"
      "0 \<le> z" "z \<le> 100" by blast
    with fill l tp have "map_of kvs' f = Some (JNum (Fin z))" by auto
    with w z show ?thesis by (simp add: percentage_ok_def)
  qed
  from 1 2 3 4 show ?thesis by blast
qed

lemma ensure_percentage_lacking:
  "lacks_number (map_of kvs f) \<Longrightarrow>
   ensure_percentage f c (JObj kvs)
     = and_then (fallback_percentage (map_of kvs ''totalCount'') (map_of kvs c))
         (\<lambda>v. Inr (JObj (obj_set f v kvs)))"
  by (simp add: ensure_percentage_object filled_def and_then_def split: sum.splits)

lemma not_greater_zero:
  "v = None \<or> v = Some JNull \<or> v = Some (JBool False) \<or> v = Some (JNum NaN)
     \<or> v = Some (JNum NegInf) \<or> (\<exists>x. x \<le> 0 \<and> v = Some (JNum (Fin x)))
   \<Longrightarrow> \<exists>n. to_number v = Inr n \<and> \<not> js_gt n (Fin 0)"
  by (auto simp: to_number_simps js_gt_def)

lemma get_prop_wire_any: "get_prop (wire j) k = map_option wire (get_prop j k)"
  by (cases j) (simp_all add: get_prop_wire[simplified] split: jsnum.splits)

lemma wire_Fin_iff: "wire x = JNum (Fin r) \<longleftrightarrow> x = JNum (Fin r)"
  by (cases x) (auto split: jsnum.splits)

lemma index_ok_wire: "index_ok (map_option wire tc) (wire i) = index_ok tc i"
proof (cases tc)
  case None
  then show ?thesis by (simp add: index_ok_def)
next
  case (Some t)
  show ?thesis
  proof (cases "\<exists>x. t = JNum (Fin x)")
    case True
    then obtain x where "t = JNum (Fin x)" by blast
    with Some show ?thesis
      by (cases i) (auto simp: index_ok_def split: jsnum.splits)
  next
    case False
    then have "\<not> (\<exists>x. wire t = JNum (Fin x))" by (simp add: wire_Fin_iff)
    with False Some show ?thesis
      by (auto simp: index_ok_def split: json.splits jsnum.splits)
  qed
qed

lemma review_indices_wire: "review_indices (wire kw) = map wire (review_indices kw)"
proof -
  have "get_prop (wire kw) ''reviewIndices'' = map_option wire (get_prop kw ''reviewIndices'')"
    by (rule get_prop_wire_any)
  then show ?thesis
    by (cases "get_prop kw ''reviewIndices''")
      (auto simp: review_indices_def split: json.splits jsnum.splits)
qed

lemma elements_wire: "elements (map_option wire v) = map wire (elements v)"
  by (auto simp: elements_def split: option.splits json.splits jsnum.splits)

lemma index_integrity_wire:
  assumes "get_prop a ''keywords'' = map_option wire (get_prop b ''keywords'')"
    and "get_prop a ''totalCount'' = map_option wire (get_prop b ''totalCount'')"
  shows "index_integrity a = index_integrity b"
  unfolding index_integrity_def assms elements_wire
  by (simp add: list_all_iff review_indices_wire index_ok_wire)

lemma filled_succeeds_iff:
  "(\<exists>k. filled f c kvs = Inr k) \<longleftrightarrow>
     (lacks_number (map_of kvs f) \<longrightarrow>
        (\<exists>v. fallback_percentage (map_of kvs ''totalCount'') (map_of kvs c) = Inr v))"
  by (auto simp: filled_def and_then_def split: sum.splits)

lemma ensure_percentages_succeeds_iff:
  "(\<exists>r. ensure_percentages (JObj kvs) = Inr r) \<longleftrightarrow>
     (lacks_number (map_of kvs ''positive'') \<longrightarrow>
        (\<exists>v. fallback_percentage (map_of kvs ''totalCount'') (map_of kvs ''positiveCount'') = Inr v))
   \<and> (lacks_number (map_of kvs ''negative'') \<longrightarrow>
        (\<exists>v. fallback_percentage (map_of kvs ''totalCount'') (map_of kvs ''negativeCount'') = Inr v))"
  (is "?l \<longleftrightarrow> ?p \<and> ?n")
proof
  assume ?l
  then obtain r where "ensure_percentages (JObj kvs) = Inr r" by blast
  from ensure_percentages_shape[OF this] show "?p \<and> ?n" by blast
next
  assume pn: "?p \<and> ?n"
  then obtain k1 where k1: "filled ''positive'' ''positiveCount'' kvs = Inr k1"
    using filled_succeeds_iff[of "''positive''" "''positiveCount''" kvs] by blast
  from filled_Inr[OF k1] have same: "map_of k1 ''negative'' = map_of kvs ''negative''"
    "map_of k1 ''totalCount'' = map_of kvs ''totalCount''"
    "map_of k1 ''negativeCount'' = map_of kvs ''negativeCount''"
    by simp_all
  with pn obtain k2 where k2: "filled ''negative'' ''negativeCount'' k1 = Inr k2"
    using filled_succeeds_iff[of "''negative''" "''negativeCount''" k1] by auto
  from k1 k2 have "ensure_percentages (JObj kvs) = Inr (JObj k2)"
    by (simp add: ensure_percentages_object)
  then show ?l by blast
qed

section \<open>The claims\<close>

text \<open>
  C1, as the specification states it, fails: for a batch of three reviews and the reply
  text \<open>{"positive":150,"negative":-50}\<close> the route answers with status 200 and that very
  object, which has no \<open>totalCount\<close>, no \<open>positiveCount\<close>, no \<open>negativeCount\<close> and no
  \<open>keywords\<close>, and whose percentages are not between 0 and 100.
\<close>

theorem well_formed_counterexample:
  "fst (POST example_env (always ''{\"positive\":150,\"negative\":-50}'')
         (example_request (Some (JStr ''en''))))
     = Inr \<lparr>status = 200,
            body = JObj [(''positive'', JNum (Fin 150)), (''negative'', JNum (Fin (- 50)))]\<rparr>
   \<and> get_prop (JObj [(''positive'', JNum (Fin 150)), (''negative'', JNum (Fin (- 50)))])
         ''totalCount'' = None
   \<and> \<not> percentage_ok
         (get_prop (JObj [(''positive'', JNum (Fin 150)), (''negative'', JNum (Fin (- 50)))])
            ''positive'')
   \<and> \<not> well_formed_result
         (JObj [(''positive'', JNum (Fin 150)), (''negative'', JNum (Fin (- 50)))])"
  by code_simp

text \<open>
  C1, amended.  For every non-empty batch, with the key set, a response that the route
  returns is one of two.  Either it has status 200 and its body is the object found in
  the last reply: every field other than \<open>positive\<close> and \<open>negative\<close> is there exactly
  when the model wrote it, and as the model wrote it (none is required); \<open>positive\<close> and
  \<open>negative\<close> are always there; a percentage that the model wrote as a number is
  returned unchanged, whatever its range; a percentage that is absent, not a number or
  \<open>NaN\<close> is \<open>0\<close> when \<open>totalCount\<close> is not \<open>> 0\<close>, and a number between 0 and 100 when
  \<open>totalCount\<close> and the count are numbers with \<open>0 \<le> count \<le> totalCount\<close> and
  \<open>totalCount > 0\<close>.  Or it has status 500 and its body is the object \<open>{error: m}\<close>, which
  has no other field, for a non-empty string \<open>m\<close>.
\<close>

theorem response_shape:
  assumes "OPENAI_API_KEY e = Some k" "k \<noteq> []"
    and "reviews req = Some (JArr rs)" "rs \<noteq> []"
    and "POST e svc req = (Inr resp, calls)"
  shows "(status resp = 200
          \<and> (\<exists>content msg kvs.
                reply_text (svc (butlast calls) (last calls)) = Inr content
                \<and> extract_json msg content = Inr (JObj kvs)
                \<and> (\<forall>f. f \<noteq> ''positive'' \<and> f \<noteq> ''negative'' \<longrightarrow>
                       get_prop (body resp) f = map_option wire (map_of kvs f))
                \<and> (\<forall>(f, c) \<in> {(''positive'', ''positiveCount''), (''negative'', ''negativeCount'')}.
                     get_prop (body resp) f \<noteq> None
                     \<and> (\<forall>x. map_of kvs f = Some (JNum (Fin x)) \<longrightarrow>
                            get_prop (body resp) f = Some (JNum (Fin x)))
                     \<and> (lacks_number (map_of kvs f)
                          \<and> (\<exists>n. to_number (map_of kvs ''totalCount'') = Inr n \<and> \<not> js_gt n (Fin 0))
                          \<longrightarrow> get_prop (body resp) f = Some (JNum (Fin 0)))
                     \<and> (lacks_number (map_of kvs f)
                          \<and> (\<exists>t p. map_of kvs ''totalCount'' = Some (JNum (Fin t))
                                   \<and> map_of kvs c = Some (JNum (Fin p))
                                   \<and> 0 \<le> p \<and> p \<le> t \<and> 0 < t)
                          \<longrightarrow> percentage_ok (get_prop (body resp) f)))))
       \<or> (status resp = 500 \<and> (\<exists>m. m \<noteq> [] \<and> body resp = JObj [(''error'', JStr m)]))"
proof -
  from POST_valid_answers[OF assms]
  have "status resp = 200 \<or> (\<exists>m. m \<noteq> [] \<and> resp = error_response 500 m)" by simp
  then show ?thesis
  proof
    assume s: "status resp = 200"
    from POST_success[OF assms(5) s] obtain content msg kvs j' where
      c: "reply_text (svc (butlast calls) (last calls)) = Inr content"
      "extract_json msg content = Inr (JObj kvs)"
      and n: "ensure_percentages (JObj kvs) = Inr j'" and b: "body resp = wire j'"
      by blast
    from ensure_percentages_shape[OF n] obtain kvs' where j': "j' = JObj kvs'"
      and o: "\<forall>g. g \<noteq> ''positive'' \<and> g \<noteq> ''negative'' \<longrightarrow> map_of kvs' g = map_of kvs g"
      by blast
    have 1: "\<forall>f. f \<noteq> ''positive'' \<and> f \<noteq> ''negative'' \<longrightarrow>
                get_prop (body resp) f = map_option wire (map_of kvs f)"
    proof (intro allI impI)
      fix f :: string
      assume f: "f \<noteq> ''positive'' \<and> f \<noteq> ''negative''"
      have "get_prop (body resp) f = map_option wire (map_of kvs' f)"
        unfolding b j' by (rule get_prop_wire)
      with o f show "get_prop (body resp) f = map_option wire (map_of kvs f)" by simp
    qed
    note p = written_percentage[OF n, of "''positive''" "''positiveCount''", folded b]
    note q = written_percentage[OF n, of "''negative''" "''negativeCount''", folded b]
    have 2: "\<forall>(f, c) \<in> {(''positive'', ''positiveCount''), (''negative'', ''negativeCount'')}.
                     get_prop (body resp) f \<noteq> None
                     \<and> (\<forall>x. map_of kvs f = Some (JNum (Fin x)) \<longrightarrow>
                            get_prop (body resp) f = Some (JNum (Fin x)))
                     \<and> (lacks_number (map_of kvs f)
                          \<and> (\<exists>n. to_number (map_of kvs ''totalCount'') = Inr n \<and> \<not> js_gt n (Fin 0))
                          \<longrightarrow> get_prop (body resp) f = Some (JNum (Fin 0)))
                     \<and> (lacks_number (map_of kvs f)
                          \<and> (\<exists>t p. map_of kvs ''totalCount'' = Some (JNum (Fin t))
                                   \<and> map_of kvs c = Some (JNum (Fin p))
                                   \<and> 0 \<le> p \<and> p \<le> t \<and> 0 < t)
                          \<longrightarrow> percentage_ok (get_prop (body resp) f))"
      using p q by simp
    from s c 1 2 show ?thesis by blast
  next
    assume "\<exists>m. m \<noteq> [] \<and> resp = error_response 500 m"
    then obtain m where "m \<noteq> []" "resp = error_response 500 m" by blast
    then have "status resp = 500 \<and> (\<exists>m. m \<noteq> [] \<and> body resp = JObj [(''error'', JStr m)])"
      by (auto simp: status_simps)
    then show ?thesis by (rule disjI2)
  qed
qed

theorem response_shape_witness:
  "OPENAI_API_KEY example_env = Some ''sk-test''
   \<and> reviews (example_request None) = Some (JArr example_reviews) \<and> example_reviews \<noteq> []
   \<and> POST example_env (always ''{\"totalCount\":4,\"positiveCount\":3,\"negativeCount\":1}'')
         (example_request None)
       = (Inr \<lparr>status = 200,
                body = JObj [(''totalCount'', JNum (Fin 4)), (''positiveCount'', JNum (Fin 3)),
                             (''negativeCount'', JNum (Fin 1)), (''positive'', JNum (Fin 75)),
                             (''negative'', JNum (Fin 25))]\<rparr>,
          [single_request None example_reviews])
   \<and> get_prop (JObj [(''totalCount'', JNum (Fin 4)), (''positiveCount'', JNum (Fin 3)),
                      (''negativeCount'', JNum (Fin 1)), (''positive'', JNum (Fin 75)),
                      (''negative'', JNum (Fin 25))]) ''positive'' \<noteq> None
   \<and> get_prop (JObj [(''totalCount'', JNum (Fin 4)), (''positiveCount'', JNum (Fin 3)),
                      (''negativeCount'', JNum (Fin 1)), (''positive'', JNum (Fin 75)),
                      (''negative'', JNum (Fin 25))]) ''negative'' \<noteq> None"
proof -
  define r where "r = \<lparr>status = 200,
                body = JObj [(''totalCount'', JNum (Fin 4)), (''positiveCount'', JNum (Fin 3)),
                             (''negativeCount'', JNum (Fin 1)), (''positive'', JNum (Fin 75)),
                             (''negative'', JNum (Fin 25))]\<rparr>"
  have k: "OPENAI_API_KEY example_env = Some ''sk-test''" "''sk-test'' \<noteq> []"
    by (simp_all add: example_env_def)
  have rv: "reviews (example_request None) = Some (JArr example_reviews)" "example_reviews \<noteq> []"
    by (simp_all add: example_request_def example_reviews_def)
  have "POST example_env (always ''{\"totalCount\":4,\"positiveCount\":3,\"negativeCount\":1}'')
         (example_request None)
       = (Inr \<lparr>status = 200,
                body = JObj [(''totalCount'', JNum (Fin 4)), (''positiveCount'', JNum (Fin 3)),
                             (''negativeCount'', JNum (Fin 1)), (''positive'', JNum (Fin 75)),
                             (''negative'', JNum (Fin 25))]\<rparr>,
          [single_request None example_reviews])"
    by code_simp
  then have pq: "POST example_env (always ''{\"totalCount\":4,\"positiveCount\":3,\"negativeCount\":1}'')
         (example_request None) = (Inr r, [single_request None example_reviews])"
    by (simp only: r_def)
  have s: "status r = 200" by (simp add: r_def)
  have "get_prop (body r) ''positive'' \<noteq> None \<and> get_prop (body r) ''negative'' \<noteq> None"
    using response_shape[OF k rv pq]
  proof (elim disjE conjE exE)
    fix content msg kvs
    assume "\<forall>(f, c) \<in> {(''positive'', ''positiveCount''), (''negative'', ''negativeCount'')}.
                     get_prop (body r) f \<noteq> None
                     \<and> (\<forall>x. map_of kvs f = Some (JNum (Fin x)) \<longrightarrow>
                            get_prop (body r) f = Some (JNum (Fin x)))
                     \<and> (lacks_number (map_of kvs f)
                          \<and> (\<exists>n. to_number (map_of kvs ''totalCount'') = Inr n \<and> \<not> js_gt n (Fin 0))
                          \<longrightarrow> get_prop (body r) f = Some (JNum (Fin 0)))
                     \<and> (lacks_number (map_of kvs f)
                          \<and> (\<exists>t p. map_of kvs ''totalCount'' = Some (JNum (Fin t))
                                   \<and> map_of kvs c = Some (JNum (Fin p))
                                   \<and> 0 \<le> p \<and> p \<le> t \<and> 0 < t)
                          \<longrightarrow> percentage_ok (get_prop (body r) f))"
    then show ?thesis by simp
  next
    assume "status r = 500"
    with s show ?thesis by simp
  qed
  then have "get_prop (JObj [(''totalCount'', JNum (Fin 4)), (''positiveCount'', JNum (Fin 3)),
                      (''negativeCount'', JNum (Fin 1)), (''positive'', JNum (Fin 75)),
                      (''negative'', JNum (Fin 25))]) ''positive'' \<noteq> None
   \<and> get_prop (JObj [(''totalCount'', JNum (Fin 4)), (''positiveCount'', JNum (Fin 3)),
                      (''negativeCount'', JNum (Fin 1)), (''positive'', JNum (Fin 75)),
                      (''negative'', JNum (Fin 25))]) ''negative'' \<noteq> None"
    by (simp add: r_def)
  with k(1) rv pq[unfolded r_def] show ?thesis by (intro conjI) (elim conjE, assumption)+
qed

text \<open>
  C2, as the specification states it, fails: for the parsed payload
  \<open>{"totalCount":{"toString":1}}\<close>, which lacks \<open>positive\<close> and whose \<open>totalCount\<close> is not
  \<open>> 0\<close>, the field is not defaulted to 0.  The comparison \<open>json.totalCount > 0\<close> converts
  the object to a primitive value, which throws a \<open>TypeError\<close>; the normalizer is left by
  that exception and the route answers with status 500.
\<close>

theorem percentage_fallback_counterexample:
  "lacks_number (get_prop (JObj [(''totalCount'', JObj [(''toString'', JNum (Fin 1))])]) ''positive'')
   \<and> ensure_percentages (JObj [(''totalCount'', JObj [(''toString'', JNum (Fin 1))])])
       = Inl TypeError
   \<and> POST example_env (always ''{\"totalCount\":{\"toString\":1}}'') (example_request None)
       = (Inr (error_response 500 (message_or TypeError ''OpenAI error'')),
          [single_request None example_reviews])"
  by code_simp

text \<open>
  C2, amended.  In the normalizer, a field \<open>positive\<close> (respectively \<open>negative\<close>) that is
  absent, not a number or \<open>NaN\<close> is set as follows, \<open>count\<close> being \<open>positiveCount\<close>
  (respectively \<open>negativeCount\<close>).  If the conversion of \<open>totalCount\<close> to a number throws
  (an object with a property \<open>toString\<close> of its own), the normalizer throws.  If
  \<open>totalCount\<close> converts to a number that is not \<open>> 0\<close> (so when it is absent, \<open>null\<close>,
  \<open>false\<close>, \<open>NaN\<close> or a number at most 0), the field is set to \<open>0\<close>.  If \<open>totalCount\<close>
  converts to a number \<open>> 0\<close>, the normalizer throws when the conversion of \<open>count\<close>
  throws, and otherwise sets the field to \<open>count / totalCount * 100\<close>, computed in double
  precision on the converted numbers; for numbers with \<open>0 \<le> count \<le> totalCount\<close> that
  is a number between 0 and 100.  Every other field is left as it was, so that the
  step for \<open>negative\<close> finds the \<open>totalCount\<close> and the counts that the model wrote.  A count of 3
  with a \<open>totalCount\<close> of 4 gives \<open>75\<close>; a count of 57 with a \<open>totalCount\<close> of 100 gives
  the double next below 57; and with \<open>totalCount = 0\<close> a payload that lacks both
  percentages gets \<open>0\<close> for both.
\<close>

theorem percentage_fallback:
  assumes "lacks_number (map_of kvs f)"
  shows "ensure_percentages j
           = and_then (ensure_percentage ''positive'' ''positiveCount'' j)
               (ensure_percentage ''negative'' ''negativeCount'')
    \<and> (\<forall>j1. ensure_percentage ''positive'' ''positiveCount'' (JObj kvs) = Inr j1 \<longrightarrow>
           (\<exists>k1. j1 = JObj k1 \<and> (\<forall>g. g \<noteq> ''positive'' \<longrightarrow> map_of k1 g = map_of kvs g)))
    \<and> (to_number (map_of kvs ''totalCount'') = Inl TypeError \<longrightarrow>
         ensure_percentage f c (JObj kvs) = Inl TypeError)
    \<and> (to_number (map_of kvs ''totalCount'') = Inr t \<and> \<not> js_gt t (Fin 0) \<longrightarrow>
         ensure_percentage f c (JObj kvs) = Inr (JObj (obj_set f (JNum (Fin 0)) kvs)))
    \<and> (map_of kvs ''totalCount'' = None \<or> map_of kvs ''totalCount'' = Some JNull
         \<or> map_of kvs ''totalCount'' = Some (JBool False) \<or> map_of kvs ''totalCount'' = Some (JNum NaN)
         \<or> map_of kvs ''totalCount'' = Some (JNum NegInf)
         \<or> (\<exists>x. x \<le> 0 \<and> map_of kvs ''totalCount'' = Some (JNum (Fin x))) \<longrightarrow>
         ensure_percentage f c (JObj kvs) = Inr (JObj (obj_set f (JNum (Fin 0)) kvs)))
    \<and> (to_number (map_of kvs ''totalCount'') = Inr t \<and> js_gt t (Fin 0)
         \<and> to_number (map_of kvs c) = Inl TypeError \<longrightarrow>
         ensure_percentage f c (JObj kvs) = Inl TypeError)
    \<and> (to_number (map_of kvs ''totalCount'') = Inr t \<and> js_gt t (Fin 0)
         \<and> to_number (map_of kvs c) = Inr p \<longrightarrow>
         ensure_percentage f c (JObj kvs)
           = Inr (JObj (obj_set f (JNum (js_mul (js_div p t) (Fin 100))) kvs)))
    \<and> (map_of kvs ''totalCount'' = Some (JNum (Fin x)) \<and> 0 < x
         \<and> map_of kvs c = Some (JNum (Fin y)) \<longrightarrow>
         ensure_percentage f c (JObj kvs)
           = Inr (JObj (obj_set f (JNum (js_mul (to_double (y / x)) (Fin 100))) kvs))
         \<and> (0 \<le> y \<and> y \<le> x \<longrightarrow>
              (\<exists>z. js_mul (to_double (y / x)) (Fin 100) = Fin z \<and> 0 \<le> z \<and> z \<le> 100)))
    \<and> (\<forall>g v. map_of (obj_set f v kvs) g = (if g = f then Some v else map_of kvs g))
    \<and> js_mul (to_double (3 / 4)) (Fin 100) = Fin 75
    \<and> js_mul (to_double (57 / 100)) (Fin 100) = Fin (57 - 1 / 2 ^ 47)
    \<and> ensure_percentages (JObj [(''totalCount'', JNum (Fin 0))])
        = Inr (JObj [(''totalCount'', JNum (Fin 0)), (''positive'', JNum (Fin 0)),
                     (''negative'', JNum (Fin 0))])"
proof -
  note e = ensure_percentage_lacking[OF assms, of c]
  have 1: "ensure_percentages j
           = and_then (ensure_percentage ''positive'' ''positiveCount'' j)
               (ensure_percentage ''negative'' ''negativeCount'')"
    by (rule ensure_percentages_def)
  have 0: "\<forall>j1. ensure_percentage ''positive'' ''positiveCount'' (JObj kvs) = Inr j1 \<longrightarrow>
           (\<exists>k1. j1 = JObj k1 \<and> (\<forall>g. g \<noteq> ''positive'' \<longrightarrow> map_of k1 g = map_of kvs g))"
  proof (intro allI impI)
    fix j1
    assume "ensure_percentage ''positive'' ''positiveCount'' (JObj kvs) = Inr j1"
    then obtain k1 where k1: "filled ''positive'' ''positiveCount'' kvs = Inr k1" "j1 = JObj k1"
      by (auto simp: ensure_percentage_object and_then_def split: sum.splits)
    from filled_Inr[OF k1(1)] k1(2)
    show "\<exists>k1. j1 = JObj k1 \<and> (\<forall>g. g \<noteq> ''positive'' \<longrightarrow> map_of k1 g = map_of kvs g)"
      by blast
  qed
  have 2: "ensure_percentage f c (JObj kvs) = Inl TypeError"
    if "to_number (map_of kvs ''totalCount'') = Inl TypeError"
    using fallback_total_throws[OF that, of "map_of kvs c"] by (simp add: e and_then_def)
  have 3: "ensure_percentage f c (JObj kvs) = Inr (JObj (obj_set f (JNum (Fin 0)) kvs))"
    if "\<exists>n. to_number (map_of kvs ''totalCount'') = Inr n \<and> \<not> js_gt n (Fin 0)"
  proof -
    from that obtain n where "to_number (map_of kvs ''totalCount'') = Inr n" "\<not> js_gt n (Fin 0)"
      by blast
    from fallback_not_positive[OF this, of "map_of kvs c"] show ?thesis
      by (simp add: e and_then_def)
  qed
  have 4: "ensure_percentage f c (JObj kvs) = Inl TypeError"
    if "to_number (map_of kvs ''totalCount'') = Inr t" "js_gt t (Fin 0)"
      "to_number (map_of kvs c) = Inl TypeError"
    using fallback_count_throws[OF that] by (simp add: e and_then_def)
  have 5: "ensure_percentage f c (JObj kvs)
           = Inr (JObj (obj_set f (JNum (js_mul (js_div p t) (Fin 100))) kvs))"
    if "to_number (map_of kvs ''totalCount'') = Inr t" "js_gt t (Fin 0)"
      "to_number (map_of kvs c) = Inr p"
    using fallback_value[OF that] by (simp add: e and_then_def)
  have 6: "ensure_percentage f c (JObj kvs)
           = Inr (JObj (obj_set f (JNum (js_mul (to_double (y / x)) (Fin 100))) kvs))"
    if "map_of kvs ''totalCount'' = Some (JNum (Fin x))" "0 < x"
      "map_of kvs c = Some (JNum (Fin y))"
    using fallback_numbers[OF that(2), of y] that(1,3) by (simp add: e and_then_def)
  have 7: "\<exists>z. js_mul (to_double (y / x)) (Fin 100) = Fin z \<and> 0 \<le> z \<and> z \<le> 100"
    if "0 < x" "0 \<le> y" "y \<le> x"
    using fallback_bounded[OF that(2,3,1)] fallback_numbers[OF that(1), of y] by auto
  have 8: "\<forall>g v. map_of (obj_set f v kvs) g = (if g = f then Some v else map_of kvs g)"
    by (simp add: map_of_obj_set)
  have 9: "js_mul (to_double (3 / 4)) (Fin 100) = Fin 75" by code_simp
  have 10: "js_mul (to_double (57 / 100)) (Fin 100) = Fin (57 - 1 / 2 ^ 47)" by code_simp
  have 11: "ensure_percentages (JObj [(''totalCount'', JNum (Fin 0))])
        = Inr (JObj [(''totalCount'', JNum (Fin 0)), (''positive'', JNum (Fin 0)),
                     (''negative'', JNum (Fin 0))])" by code_simp
  have z3: "ensure_percentage f c (JObj kvs) = Inr (JObj (obj_set f (JNum (Fin 0)) kvs))"
    if "map_of kvs ''totalCount'' = None \<or> map_of kvs ''totalCount'' = Some JNull
         \<or> map_of kvs ''totalCount'' = Some (JBool False) \<or> map_of kvs ''totalCount'' = Some (JNum NaN)
         \<or> map_of kvs ''totalCount'' = Some (JNum NegInf)
         \<or> (\<exists>x. x \<le> 0 \<and> map_of kvs ''totalCount'' = Some (JNum (Fin x)))"
    using 3[OF not_greater_zero[OF that]] .
  show ?thesis
    apply (intro conjI impI)
    subgoal by (rule 1)
    subgoal by (rule 0)
    subgoal by (rule 2)
    subgoal by (rule 3) blast
    subgoal by (rule z3)
    subgoal by (rule 4) blast+
    subgoal by (rule 5) blast+
    subgoal by (rule 6) blast+
    subgoal by (rule 7) blast+
    subgoal by (rule 8)
    subgoal by (rule 9)
    subgoal by (rule 10)
    subgoal by (rule 11)
    done
qed

theorem percentage_fallback_witness:
  "lacks_number (map_of [(''positiveCount'', JNum (Fin 3)), (''totalCount'', JNum (Fin 4))] ''positive'')
   \<and> ensure_percentage ''positive'' ''positiveCount''
        (JObj [(''positiveCount'', JNum (Fin 3)), (''totalCount'', JNum (Fin 4))])
      = Inr (JObj [(''positiveCount'', JNum (Fin 3)), (''totalCount'', JNum (Fin 4)),
                   (''positive'', JNum (Fin 75))])"
proof -
  have l: "lacks_number (map_of [(''positiveCount'', JNum (Fin 3)), (''totalCount'', JNum (Fin 4))] ''positive'')"
    by code_simp
  have o: "obj_set ''positive'' (JNum (Fin 75)) [(''positiveCount'', JNum (Fin 3)), (''totalCount'', JNum (Fin 4))]
     = [(''positiveCount'', JNum (Fin 3)), (''totalCount'', JNum (Fin 4)), (''positive'', JNum (Fin 75))]"
    by code_simp
  from percentage_fallback[OF l, of JNull "''positiveCount''" "Fin 4" "Fin 3" 4 3]
  have "ensure_percentage ''positive'' ''positiveCount''
        (JObj [(''positiveCount'', JNum (Fin 3)), (''totalCount'', JNum (Fin 4))])
      = Inr (JObj (obj_set ''positive'' (JNum (Fin 75))
           [(''positiveCount'', JNum (Fin 3)), (''totalCount'', JNum (Fin 4))]))"
    by simp
  with l o show ?thesis by simp
qed

text \<open>
  C3.  The extractor takes the span from the first \<open>{\<close> to the last \<open>}\<close> of the reply
  text and parses that span with \<open>JSON.parse\<close>: the text \<open>Sure! {"a":1} Thanks.\<close> gives
  the object \<open>{"a":1}\<close>; whatever lies before the first \<open>{\<close> and behind the last \<open>}\<close> is
  dropped and everything between them is kept; a text with no \<open>{\<close> that has a \<open>}\<close>
  behind it has no span and the extraction fails with the \<open>Error\<close> of line 119 or 146; a
  span that \<open>JSON.parse\<close> refuses fails with its \<open>SyntaxError\<close>; a span that it accepts is
  the result, whole.
\<close>

theorem extractor_greedy_span:
  "extract_json msg ''Sure! {\"a\":1} Thanks.'' = Inr (JObj [(''a'', JNum (Fin 1))])
   \<and> (CHR ''{'' \<notin> set pre \<and> CHR ''}'' \<notin> set post \<longrightarrow>
        brace_span (pre @ CHR ''{'' # inner @ CHR ''}'' # post) = Some (CHR ''{'' # inner @ [CHR ''}'']))
   \<and> (brace_span raw = None \<longleftrightarrow>
        \<not> (\<exists>p i q. raw = p @ CHR ''{'' # i @ CHR ''}'' # q))
   \<and> (brace_span raw = None \<longrightarrow> extract_json msg raw = Inl (Error msg))
   \<and> (brace_span raw = Some m \<and> json_parse m = None \<longrightarrow> extract_json msg raw = Inl SyntaxError)
   \<and> (brace_span raw = Some m \<and> json_parse m = Some j \<longrightarrow> extract_json msg raw = Inr j)"
proof -
  have ex: "extract_json msg ''Sure! {\"a\":1} Thanks.'' = Inr (JObj [(''a'', JNum (Fin 1))])"
  proof -
    have "parse_match ''Sure! {\"a\":1} Thanks.'' = Inr (JObj [(''a'', JNum (Fin 1))])"
      by code_simp
    then show ?thesis by (simp add: extract_json_def and_then_def)
  qed
  have none: "extract_json msg raw = Inl (Error msg)" if "brace_span raw = None"
    using that by (simp add: extract_json_def and_then_def parse_match_def)
  have bad: "extract_json msg raw = Inl SyntaxError" if "brace_span raw = Some m" "json_parse m = None"
    using that by (simp add: extract_json_def and_then_def parse_match_def)
  have good: "extract_json msg raw = Inr j" if "brace_span raw = Some m" "json_parse m = Some j"
  proof -
    from that have pm: "parse_match raw = Inr j" by (simp add: parse_match_def)
    from that obtain r where "m = CHR ''{'' # r" by (auto dest: brace_span_head)
    with that(2) obtain kvs where "j = JObj kvs" by (auto dest: json_parse_brace_object)
    with pm show ?thesis by (simp add: extract_json_def and_then_def)
  qed
  show ?thesis
    using ex none bad good brace_span_greedy[of pre post inner] brace_span_None_iff[of raw]
    by blast
qed

theorem extractor_greedy_span_witness:
  "brace_span ''I cannot help.'' = None
   \<and> extract_json ''No JSON in OpenAI response'' ''I cannot help.''
       = Inl (Error ''No JSON in OpenAI response'')
   \<and> brace_span ''}{'' = None
   \<and> brace_span ''{\"a\":1} and {\"b\":2}'' = Some ''{\"a\":1} and {\"b\":2}''
   \<and> json_parse ''{\"a\":1} and {\"b\":2}'' = None
   \<and> extract_json ''No JSON in OpenAI response'' ''{\"a\":1} and {\"b\":2}'' = Inl SyntaxError
   \<and> brace_span ''x{\"k\":{\"n\":[]}}y'' = Some ''{\"k\":{\"n\":[]}}''
   \<and> extract_json ''No JSON in OpenAI response'' ''x{\"k\":{\"n\":[]}}y''
       = Inr (JObj [(''k'', JObj [(''n'', JArr [])])])"
proof -
  have n1: "brace_span ''I cannot help.'' = None" by code_simp
  have n2: "brace_span ''}{'' = None" by code_simp
  have s1: "brace_span ''{\"a\":1} and {\"b\":2}'' = Some ''{\"a\":1} and {\"b\":2}''" by code_simp
  have p1: "json_parse ''{\"a\":1} and {\"b\":2}'' = None" by code_simp
  have pre: "CHR ''{'' \<notin> set ''x'' \<and> CHR ''}'' \<notin> set ''y''" by simp
  have p2: "json_parse ''{\"k\":{\"n\":[]}}'' = Some (JObj [(''k'', JObj [(''n'', JArr [])])])"
    by code_simp
  note t1 = extractor_greedy_span[of "''No JSON in OpenAI response''" "''x''" "''y''"
      "''\"k\":{\"n\":[]}''" "''I cannot help.''"]
  note t2 = extractor_greedy_span[of "''No JSON in OpenAI response''" "''x''" "''y''"
      "''\"k\":{\"n\":[]}''" "''{\"a\":1} and {\"b\":2}''" "''{\"a\":1} and {\"b\":2}''"]
  note t3 = extractor_greedy_span[of "''No JSON in OpenAI response''" "''x''" "''y''"
      "''\"k\":{\"n\":[]}''" "''x{\"k\":{\"n\":[]}}y''" "''{\"k\":{\"n\":[]}}''"
      "JObj [(''k'', JObj [(''n'', JArr [])])]"]
  from t1 n1 have e1: "extract_json ''No JSON in OpenAI response'' ''I cannot help.''
       = Inl (Error ''No JSON in OpenAI response'')" by blast
  from t2 s1 p1 have e2: "extract_json ''No JSON in OpenAI response'' ''{\"a\":1} and {\"b\":2}'' = Inl SyntaxError"
    by blast
  from t3 pre have s3: "brace_span ''x{\"k\":{\"n\":[]}}y'' = Some ''{\"k\":{\"n\":[]}}''"
    by simp
  from t3 s3 p2 have e3: "extract_json ''No JSON in OpenAI response'' ''x{\"k\":{\"n\":[]}}y''
       = Inr (JObj [(''k'', JObj [(''n'', JArr [])])])" by blast
  show ?thesis using n1 e1 n2 s1 p1 e2 s3 e3 by blast
qed

text \<open>
  C4.  In the branch \<open>ko\<close>, when the reply of the sentiment call has an array
  \<open>sentiments\<close> whose length differs from the number of reviews, the route answers with
  status 500 and the error \<open>Sentiment array length mismatch\<close>, and the sentiment call is
  the only call that was made: no keyword call, and no call of the single-pass branch.
  The sentiment call is made for the batches whose elements can be written into a
  prompt, so for every batch of strings.
\<close>

theorem sentiment_length_mismatch:
  assumes "OPENAI_API_KEY e = Some k" "k \<noteq> []"
    and "reviews req = Some (JArr rs)" "rs \<noteq> []" "writable rs"
    and "req_locale req = Some (JStr ''ko'')"
    and "reply_text (svc [] (sentiment_request rs)) = Inr content"
    and "parse_match content = Inr j"
    and "get_prop j ''sentiments'' = Some (JArr ss)"
    and "length ss \<noteq> length rs"
  shows "POST e svc req
           = (Inr (error_response 500 ''Sentiment array length mismatch''), [sentiment_request rs])
         \<and> (\<forall>b s. keyword_request b s \<notin> set (snd (POST e svc req)))
         \<and> (\<forall>l b. single_request l b \<notin> set (snd (POST e svc req)))"
proof -
  have "sentiment_step rs content = Inl (Error ''Sentiment array length mismatch'')"
    using assms(8-10) by (rule sentiment_step_mismatch)
  with assms(7)
  have "and_then (reply_text (svc [] (sentiment_request rs))) (sentiment_step rs)
          = Inl (Error ''Sentiment array length mismatch'')"
    by (simp add: and_then_def)
  then have "two_pass svc rs
      = (Inr (error_response 500 ''Sentiment array length mismatch''), [sentiment_request rs])"
    by (simp add: two_pass_eq[OF assms(5)] message_or_def message_def)
  with POST_valid[OF assms(1-4), of svc] assms(5,6)
  have eq: "POST e svc req
      = (Inr (error_response 500 ''Sentiment array length mismatch''), [sentiment_request rs])"
    by simp
  show ?thesis
    unfolding eq by (simp add: requests_differ(1) requests_differ(3)[symmetric])
qed

theorem sentiment_length_mismatch_witness:
  "list_all is_string example_reviews \<and> writable example_reviews
   \<and> parse_match ''{\"sentiments\":[\"positive\",\"negative\"]}''
     = Inr (JObj [(''sentiments'', JArr [JStr ''positive'', JStr ''negative''])])
   \<and> length [JStr ''positive'', JStr ''negative''] \<noteq> length example_reviews
   \<and> POST example_env (always ''{\"sentiments\":[\"positive\",\"negative\"]}'')
        (example_request (Some (JStr ''ko'')))
       = (Inr (error_response 500 ''Sentiment array length mismatch''),
          [sentiment_request example_reviews])"
proof -
  have k: "OPENAI_API_KEY example_env = Some ''sk-test''" "''sk-test'' \<noteq> []"
    by (simp_all add: example_env_def)
  have s: "list_all is_string example_reviews" by (simp add: example_reviews_def is_string_def)
  have r: "reviews (example_request (Some (JStr ''ko''))) = Some (JArr example_reviews)"
    "example_reviews \<noteq> []" "writable example_reviews"
    "req_locale (example_request (Some (JStr ''ko''))) = Some (JStr ''ko'')"
    using strings_writable[OF s] by (simp_all add: example_request_def example_reviews_def)
  have c: "reply_text (always ''{\"sentiments\":[\"positive\",\"negative\"]}'' []
              (sentiment_request example_reviews))
            = Inr ''{\"sentiments\":[\"positive\",\"negative\"]}''"
    by (simp add: always_def reply_text_def await_def first_content_def and_then_def)
  have p: "parse_match ''{\"sentiments\":[\"positive\",\"negative\"]}''
     = Inr (JObj [(''sentiments'', JArr [JStr ''positive'', JStr ''negative''])])"
    by code_simp
  have g: "get_prop (JObj [(''sentiments'', JArr [JStr ''positive'', JStr ''negative''])]) ''sentiments''
     = Some (JArr [JStr ''positive'', JStr ''negative''])"
    by simp
  have l: "length [JStr ''positive'', JStr ''negative''] \<noteq> length example_reviews"
    by (simp add: example_reviews_def)
  note t = sentiment_length_mismatch[where svc = "always ''{\"sentiments\":[\"positive\",\"negative\"]}''"
      and e = example_env and req = "example_request (Some (JStr ''ko''))", OF k r c p g l]
  from t[THEN conjunct1] p l s r(3) show ?thesis by (intro conjI)
qed

text \<open>
  C5, as the specification states it, fails: for three reviews the reply
  \<open>{"sentiments":["neutral",5,null]}\<close> is accepted, although none of its three
  elements is a sentiment label, and the keyword call is made with them.
\<close>

theorem sentiment_labels_counterexample:
  "sentiment_step example_reviews ''{\"sentiments\":[\"neutral\",5,null]}''
     = Inr [JStr ''neutral'', JNum (Fin 5), JNull]
   \<and> \<not> list_all is_sentiment_label [JStr ''neutral'', JNum (Fin 5), JNull]
   \<and> snd (POST example_env (always ''{\"sentiments\":[\"neutral\",5,null]}'')
            (example_request (Some (JStr ''ko''))))
       = [sentiment_request example_reviews,
          keyword_request example_reviews [JStr ''neutral'', JNum (Fin 5), JNull]]
   \<and> user_content (keyword_request example_reviews [JStr ''neutral'', JNum (Fin 5), JNull])
       = KeywordPrompt
           [(1, JStr ''Great build quality''), (2, JStr ''Terrible delivery, very late''),
            (3, JStr ''Love the design'')]
           [(1, JStr ''neutral''), (2, JNum (Fin 5)), (3, JNull)]"
  by code_simp

text \<open>
  C5, amended.  The check on the reply of the sentiment call accepts a reply exactly when
  the object in it has a property \<open>sentiments\<close> that is an array whose length is the
  number of reviews; the elements of the array are not looked at.  Every other reply is
  refused with an exception, and nothing of it is kept.  An accepted array whose
  elements can be written into a prompt (every array of strings, numbers, booleans and
  \<open>null\<close>) is what the keyword call is given: its prompt lists every element, in order
  and unchanged, with its number.
\<close>

theorem sentiment_validation:
  "(sentiment_step rs content = Inr ss \<longleftrightarrow>
      (\<exists>j. parse_match content = Inr j \<and> get_prop j ''sentiments'' = Some (JArr ss)
           \<and> length ss = length rs))
   \<and> (\<not> (\<exists>j a. parse_match content = Inr j \<and> get_prop j ''sentiments'' = Some (JArr a)
              \<and> length a = length rs)
        \<longrightarrow> (\<exists>err. sentiment_step rs content = Inl err))
   \<and> (writable rs \<and> writable ss
        \<and> reply_text (svc [] (sentiment_request rs)) = Inr content
        \<and> sentiment_step rs content = Inr ss
        \<longrightarrow> snd (two_pass svc rs) = [sentiment_request rs, keyword_request rs ss]
            \<and> user_content (keyword_request rs ss) = KeywordPrompt (numbered rs) (numbered ss)
            \<and> map snd (numbered ss) = ss
            \<and> map fst (numbered ss) = [1..<Suc (length ss)])
   \<and> (list_all (\<lambda>x. case x of JObj kvs \<Rightarrow> False | JArr ys \<Rightarrow> False | _ \<Rightarrow> True) ss
        \<longrightarrow> writable ss)"
proof -
  have a: "sentiment_step rs content = Inr ss \<longleftrightarrow>
      (\<exists>j. parse_match content = Inr j \<and> get_prop j ''sentiments'' = Some (JArr ss)
           \<and> length ss = length rs)"
    by (rule sentiment_step_Inr)
  have b: "\<exists>err. sentiment_step rs content = Inl err"
    if n: "\<not> (\<exists>j a. parse_match content = Inr j \<and> get_prop j ''sentiments'' = Some (JArr a)
              \<and> length a = length rs)"
  proof (cases "sentiment_step rs content")
    case (Inl err)
    then show ?thesis by blast
  next
    case (Inr a)
    then have "\<exists>j. parse_match content = Inr j \<and> get_prop j ''sentiments'' = Some (JArr a)
           \<and> length a = length rs"
      by (simp only: sentiment_step_Inr)
    with n show ?thesis by blast
  qed
  have c: "snd (two_pass svc rs) = [sentiment_request rs, keyword_request rs ss]
            \<and> user_content (keyword_request rs ss) = KeywordPrompt (numbered rs) (numbered ss)
            \<and> map snd (numbered ss) = ss
            \<and> map fst (numbered ss) = [1..<Suc (length ss)]"
    if "writable rs" "writable ss" "reply_text (svc [] (sentiment_request rs)) = Inr content"
       "sentiment_step rs content = Inr ss"
    using that(2-4) by (simp add: two_pass_eq[OF that(1)] and_then_def request_prompts numbered_parts)
  have d: "writable ss"
    if "list_all (\<lambda>x. case x of JObj kvs \<Rightarrow> False | JArr ys \<Rightarrow> False | _ \<Rightarrow> True) ss"
    using that by (rule primitives_writable)
  from a b c d show ?thesis by blast
qed

theorem sentiment_validation_witness:
  "parse_match ''{\"sentiments\":[\"positive\",\"negative\",\"positive\"]}''
     = Inr (JObj [(''sentiments'', JArr [JStr ''positive'', JStr ''negative'', JStr ''positive''])])
   \<and> sentiment_step example_reviews ''{\"sentiments\":[\"positive\",\"negative\",\"positive\"]}''
       = Inr [JStr ''positive'', JStr ''negative'', JStr ''positive'']
   \<and> parse_match ''positive, negative, positive'' = Inr JNull
   \<and> (\<exists>err. sentiment_step example_reviews ''positive, negative, positive'' = Inl err)"
proof -
  define good where "good = ''{\"sentiments\":[\"positive\",\"negative\",\"positive\"]}''"
  define bad where "bad = ''positive, negative, positive''"
  define ss where "ss = [JStr ''positive'', JStr ''negative'', JStr ''positive'']"
  have p: "parse_match good = Inr (JObj [(''sentiments'', JArr ss)])"
    unfolding good_def ss_def by code_simp
  have l: "length ss = length example_reviews" by (simp add: ss_def example_reviews_def)
  have q: "parse_match bad = Inr JNull" unfolding bad_def by code_simp
  note t = sentiment_validation[of example_reviews good ss "always good"]
  note u = sentiment_validation[of example_reviews bad ss "always bad"]
  have "\<exists>j. parse_match good = Inr j \<and> get_prop j ''sentiments'' = Some (JArr ss)
           \<and> length ss = length example_reviews"
    using p l by simp
  with t have 1: "sentiment_step example_reviews good = Inr ss" by blast
  have "\<not> (\<exists>j a. parse_match bad = Inr j \<and> get_prop j ''sentiments'' = Some (JArr a)
              \<and> length a = length example_reviews)"
    using q by simp
  with u have 2: "\<exists>err. sentiment_step example_reviews bad = Inl err" by blast
  from p 1 q 2 show ?thesis unfolding good_def bad_def ss_def by blast
qed

text \<open>
  C6.  When the key is absent (not set, or the empty string) the route answers with
  status 500 and \<open>OpenAI API key not set.\<close>; when the key is set and \<open>reviews\<close> is
  missing, not an array or the empty array it answers with status 400 and
  \<open>No reviews provided.\<close>.  In both cases no call to the completion service was made,
  whatever the service and the rest of the request; the key is looked at first.
\<close>

theorem terminal_without_call:
  "(OPENAI_API_KEY e = None \<or> OPENAI_API_KEY e = Some [] \<longrightarrow>
      POST e svc req = (Inr (error_response 500 ''OpenAI API key not set.''), []))
   \<and> ((\<exists>k. OPENAI_API_KEY e = Some k \<and> k \<noteq> [])
        \<and> (reviews req = None \<or> (\<forall>xs. reviews req \<noteq> Some (JArr xs)) \<or> reviews req = Some (JArr []))
        \<longrightarrow> POST e svc req = (Inr (error_response 400 ''No reviews provided.''), []))"
proof -
  have "POST e svc req = (Inr (error_response 400 ''No reviews provided.''), [])"
    if "OPENAI_API_KEY e = Some k" "k \<noteq> []"
      "reviews req = None \<or> (\<forall>xs. reviews req \<noteq> Some (JArr xs)) \<or> reviews req = Some (JArr [])"
    for k
  proof -
    from that(3) have "\<not> (\<exists>rs. reviews req = Some (JArr rs) \<and> rs \<noteq> [])" by auto
    with that(1,2) show ?thesis by (rule POST_no_batch)
  qed
  with POST_no_key[of e svc req] show ?thesis by blast
qed

theorem terminal_without_call_witness:
  "POST \<lparr>OPENAI_API_KEY = None\<rparr> (always ''{}'') (example_request None)
     = (Inr (error_response 500 ''OpenAI API key not set.''), [])
   \<and> POST \<lparr>OPENAI_API_KEY = Some ''''\<rparr> (always ''{}'') \<lparr>reviews = None, req_locale = None\<rparr>
     = (Inr (error_response 500 ''OpenAI API key not set.''), [])
   \<and> POST example_env (always ''{}'') \<lparr>reviews = None, req_locale = Some (JStr ''ko'')\<rparr>
     = (Inr (error_response 400 ''No reviews provided.''), [])
   \<and> POST example_env (always ''{}'') \<lparr>reviews = Some (JStr ''Great''), req_locale = None\<rparr>
     = (Inr (error_response 400 ''No reviews provided.''), [])
   \<and> POST example_env (always ''{}'') \<lparr>reviews = Some (JArr []), req_locale = None\<rparr>
     = (Inr (error_response 400 ''No reviews provided.''), [])"
proof -
  have k: "\<exists>k. OPENAI_API_KEY example_env = Some k \<and> k \<noteq> []" by (simp add: example_env_def)
  note a = terminal_without_call[of "\<lparr>OPENAI_API_KEY = None\<rparr>" "always ''{}''" "example_request None",
      THEN conjunct1, rule_format]
  note b = terminal_without_call[of "\<lparr>OPENAI_API_KEY = Some ''''\<rparr>" "always ''{}''"
      "\<lparr>reviews = None, req_locale = None\<rparr>", THEN conjunct1, rule_format]
  note c = terminal_without_call[of example_env "always ''{}''"
      "\<lparr>reviews = None, req_locale = Some (JStr ''ko'')\<rparr>", THEN conjunct2, rule_format]
  note d = terminal_without_call[of example_env "always ''{}''"
      "\<lparr>reviews = Some (JStr ''Great''), req_locale = None\<rparr>", THEN conjunct2, rule_format]
  note f = terminal_without_call[of example_env "always ''{}''"
      "\<lparr>reviews = Some (JArr []), req_locale = None\<rparr>", THEN conjunct2, rule_format]
  have 1: "POST \<lparr>OPENAI_API_KEY = None\<rparr> (always ''{}'') (example_request None)
     = (Inr (error_response 500 ''OpenAI API key not set.''), [])" by (rule a) simp
  have 2: "POST \<lparr>OPENAI_API_KEY = Some ''''\<rparr> (always ''{}'') \<lparr>reviews = None, req_locale = None\<rparr>
     = (Inr (error_response 500 ''OpenAI API key not set.''), [])" by (rule b) simp
  have 3: "POST example_env (always ''{}'') \<lparr>reviews = None, req_locale = Some (JStr ''ko'')\<rparr>
     = (Inr (error_response 400 ''No reviews provided.''), [])" by (rule c) (simp add: k)
  have 4: "POST example_env (always ''{}'') \<lparr>reviews = Some (JStr ''Great''), req_locale = None\<rparr>
     = (Inr (error_response 400 ''No reviews provided.''), [])" by (rule d) (simp add: k)
  have 5: "POST example_env (always ''{}'') \<lparr>reviews = Some (JArr []), req_locale = None\<rparr>
     = (Inr (error_response 400 ''No reviews provided.''), [])" by (rule f) (simp add: k)
  from 1 2 3 4 5 show ?thesis by (intro conjI)
qed

text \<open>
  C7.  The normalizer (\<open>ensure_percentages\<close>, lines 121-126 and 148-153) changes at most
  the fields \<open>positive\<close> and \<open>negative\<close>: every other field of its result, among them
  \<open>totalCount\<close>, \<open>positiveCount\<close>, \<open>negativeCount\<close> and \<open>keywords\<close>, is the field of
  the parsed object; a percentage that is a number other than \<open>NaN\<close> is kept as it is;
  and when both are such numbers the object is returned unchanged, whatever the counts
  and whatever the sum of the two percentages.  The object that the route answers with
  is the result of the normalizer on the object that the extractor found.
\<close>

theorem normalizer_frame:
  "(ensure_percentages j = Inr j' \<longrightarrow>
      (\<forall>k. k \<noteq> ''positive'' \<and> k \<noteq> ''negative'' \<longrightarrow> get_prop j' k = get_prop j k)
      \<and> (\<not> lacks_number (get_prop j ''positive'') \<longrightarrow>
           get_prop j' ''positive'' = get_prop j ''positive'')
      \<and> (\<not> lacks_number (get_prop j ''negative'') \<longrightarrow>
           get_prop j' ''negative'' = get_prop j ''negative'')
      \<and> (\<not> lacks_number (get_prop j ''positive'') \<and> \<not> lacks_number (get_prop j ''negative'')
           \<longrightarrow> j' = j))
   \<and> (analysis_step msg content = Inr j' \<longrightarrow>
        (\<exists>j0. extract_json msg content = Inr j0 \<and> ensure_percentages j0 = Inr j'))"
proof -
  have prim: "ensure_percentages j \<noteq> Inr j'"
    if "\<forall>k. get_prop j k = None" "\<forall>k v. set_prop j k v = Inl TypeError"
  proof -
    have "fallback_percentage None None = Inr (JNum (Fin 0))"
      by (rule fallback_not_positive[of _ NaN]) (simp_all add: to_number_simps js_gt_def)
    with that have "ensure_percentage ''positive'' ''positiveCount'' j = Inl TypeError"
      by (simp add: ensure_percentage_def typeof_number_def and_then_def)
    then show ?thesis by (simp add: ensure_percentages_def and_then_def)
  qed
  have frame: "(\<forall>k. k \<noteq> ''positive'' \<and> k \<noteq> ''negative'' \<longrightarrow> get_prop j' k = get_prop j k)
      \<and> (\<not> lacks_number (get_prop j ''positive'') \<longrightarrow>
           get_prop j' ''positive'' = get_prop j ''positive'')
      \<and> (\<not> lacks_number (get_prop j ''negative'') \<longrightarrow>
           get_prop j' ''negative'' = get_prop j ''negative'')
      \<and> (\<not> lacks_number (get_prop j ''positive'') \<and> \<not> lacks_number (get_prop j ''negative'')
           \<longrightarrow> j' = j)"
    if e: "ensure_percentages j = Inr j'"
  proof (cases j)
    case (JObj kvs)
    from ensure_percentages_shape[OF e[unfolded JObj]] obtain kvs' where
      k: "j' = JObj kvs'"
      "\<forall>g. g \<noteq> ''positive'' \<and> g \<noteq> ''negative'' \<longrightarrow> map_of kvs' g = map_of kvs g"
      "\<not> lacks_number (map_of kvs ''positive'') \<longrightarrow>
         map_of kvs' ''positive'' = map_of kvs ''positive''"
      "\<not> lacks_number (map_of kvs ''negative'') \<longrightarrow>
         map_of kvs' ''negative'' = map_of kvs ''negative''"
      "\<not> lacks_number (map_of kvs ''positive'') \<and> \<not> lacks_number (map_of kvs ''negative'')
         \<longrightarrow> kvs' = kvs"
      by blast
    then show ?thesis unfolding JObj by simp
  next
    case (JArr xs)
    with e have "j' = j"
      by (simp add: ensure_percentages_def and_then_def ensure_percentage_array)
    then show ?thesis by simp
  next
    case JNull
    have "ensure_percentages j \<noteq> Inr j'" by (rule prim) (simp_all add: JNull set_prop_def)
    with e show ?thesis by simp
  next
    case (JBool b)
    have "ensure_percentages j \<noteq> Inr j'" by (rule prim) (simp_all add: JBool set_prop_def)
    with e show ?thesis by simp
  next
    case (JNum n)
    have "ensure_percentages j \<noteq> Inr j'" by (rule prim) (simp_all add: JNum set_prop_def)
    with e show ?thesis by simp
  next
    case (JStr s)
    have "ensure_percentages j \<noteq> Inr j'" by (rule prim) (simp_all add: JStr set_prop_def)
    with e show ?thesis by simp
  qed
  have "\<exists>j0. extract_json msg content = Inr j0 \<and> ensure_percentages j0 = Inr j'"
    if "analysis_step msg content = Inr j'"
    using that by (auto simp: analysis_step_def and_then_def split: sum.splits)
  with frame show ?thesis by blast
qed

theorem normalizer_frame_witness:
  "ensure_percentages
     (JObj [(''totalCount'', JNum (Fin 10)), (''positiveCount'', JNum (Fin 2)),
            (''negativeCount'', JNum (Fin 3)), (''positive'', JNum (Fin 90)),
            (''negative'', JNum (Fin 90)), (''keywords'', JArr [])])
   = Inr (JObj [(''totalCount'', JNum (Fin 10)), (''positiveCount'', JNum (Fin 2)),
            (''negativeCount'', JNum (Fin 3)), (''positive'', JNum (Fin 90)),
            (''negative'', JNum (Fin 90)), (''keywords'', JArr [])])
   \<and> (\<exists>j'. ensure_percentages
               (JObj [(''totalCount'', JNum (Fin 10)), (''positiveCount'', JNum (Fin 2)),
                      (''negativeCount'', JNum (Fin 30)), (''keywords'', JStr ''none'')]) = Inr j'
          \<and> get_prop j' ''totalCount'' = Some (JNum (Fin 10))
          \<and> get_prop j' ''positiveCount'' = Some (JNum (Fin 2))
          \<and> get_prop j' ''negativeCount'' = Some (JNum (Fin 30))
          \<and> get_prop j' ''keywords'' = Some (JStr ''none''))"
proof -
  let ?a = "JObj [(''totalCount'', JNum (Fin 10)), (''positiveCount'', JNum (Fin 2)),
            (''negativeCount'', JNum (Fin 3)), (''positive'', JNum (Fin 90)),
            (''negative'', JNum (Fin 90)), (''keywords'', JArr [])]"
  let ?b = "JObj [(''totalCount'', JNum (Fin 10)), (''positiveCount'', JNum (Fin 2)),
                      (''negativeCount'', JNum (Fin 30)), (''keywords'', JStr ''none'')]"
  have "case ensure_percentages ?a of Inl ex \<Rightarrow> False | Inr r \<Rightarrow> True" by code_simp
  then obtain ja where ja: "ensure_percentages ?a = Inr ja"
    by (cases "ensure_percentages ?a") auto
  have "case ensure_percentages ?b of Inl ex \<Rightarrow> False | Inr r \<Rightarrow> True" by code_simp
  then obtain jb where jb: "ensure_percentages ?b = Inr jb"
    by (cases "ensure_percentages ?b") auto
  have na: "\<not> lacks_number (get_prop ?a ''positive'') \<and> \<not> lacks_number (get_prop ?a ''negative'')"
    by (simp add: lacks_number_def)
  from normalizer_frame[of ?a ja "''''" "''''"] ja na have "ja = ?a" by blast
  with ja have 1: "ensure_percentages ?a = Inr ?a" by simp
  from normalizer_frame[of ?b jb "''''" "''''"] jb
  have f: "\<forall>k. k \<noteq> ''positive'' \<and> k \<noteq> ''negative'' \<longrightarrow> get_prop jb k = get_prop ?b k"
    by blast
  have "get_prop jb ''totalCount'' = Some (JNum (Fin 10))"
    "get_prop jb ''positiveCount'' = Some (JNum (Fin 2))"
    "get_prop jb ''negativeCount'' = Some (JNum (Fin 30))"
    "get_prop jb ''keywords'' = Some (JStr ''none'')"
    using f by simp_all
  with jb 1 show ?thesis by blast
qed

text \<open>
  C8, as the specification states it, fails: the route answers with status 200 and an
  object in which a keyword has the review index 7, for a batch of three reviews and a
  \<open>totalCount\<close> of 3.
\<close>

theorem index_integrity_counterexample:
  "fst (POST example_env
      (always ''{\"totalCount\":3,\"positive\":66,\"negative\":34,\"keywords\":[{\"keyword\":\"design\",\"reviewIndices\":[7]}]}'')
      (example_request (Some (JStr ''en''))))
     = Inr \<lparr>status = 200,
            body = JObj [(''totalCount'', JNum (Fin 3)), (''positive'', JNum (Fin 66)),
                         (''negative'', JNum (Fin 34)),
                         (''keywords'', JArr [JObj [(''keyword'', JStr ''design''),
                                                    (''reviewIndices'', JArr [JNum (Fin 7)])]])]\<rparr>
   \<and> \<not> index_integrity
         (JObj [(''totalCount'', JNum (Fin 3)), (''positive'', JNum (Fin 66)),
                (''negative'', JNum (Fin 34)),
                (''keywords'', JArr [JObj [(''keyword'', JStr ''design''),
                                           (''reviewIndices'', JArr [JNum (Fin 7)])]])])"
  by code_simp

text \<open>
  C8, amended.  The route checks no index.  The \<open>keywords\<close> (with every
  \<open>reviewIndices\<close>) and the \<open>totalCount\<close> of a response of status 200 are those of the
  object that the extractor found in the last reply, as JSON writes them, so that the
  indices of the response are in range exactly when those that the model wrote are; and
  whether the normalizer returns or throws does not depend on the \<open>keywords\<close>.
\<close>

theorem keywords_passed_through:
  "(POST e svc req = (Inr resp, calls) \<and> status resp = 200 \<longrightarrow>
      calls \<noteq> []
      \<and> (\<exists>content msg j.
            reply_text (svc (butlast calls) (last calls)) = Inr content
            \<and> extract_json msg content = Inr j
            \<and> get_prop (body resp) ''keywords'' = map_option wire (get_prop j ''keywords'')
            \<and> get_prop (body resp) ''totalCount'' = map_option wire (get_prop j ''totalCount'')
            \<and> (index_integrity (body resp) \<longleftrightarrow> index_integrity j)))
   \<and> ((\<exists>r. ensure_percentages (JObj (obj_set ''keywords'' v kvs)) = Inr r)
        \<longleftrightarrow> (\<exists>r. ensure_percentages (JObj kvs) = Inr r))"
proof -
  have 1: "calls \<noteq> []
      \<and> (\<exists>content msg j.
            reply_text (svc (butlast calls) (last calls)) = Inr content
            \<and> extract_json msg content = Inr j
            \<and> get_prop (body resp) ''keywords'' = map_option wire (get_prop j ''keywords'')
            \<and> get_prop (body resp) ''totalCount'' = map_option wire (get_prop j ''totalCount'')
            \<and> (index_integrity (body resp) \<longleftrightarrow> index_integrity j))"
    if p: "POST e svc req = (Inr resp, calls)" and s: "status resp = 200"
  proof -
    from POST_success[OF p s] obtain content msg kvs j' where
      c: "calls \<noteq> []" "reply_text (svc (butlast calls) (last calls)) = Inr content"
      "extract_json msg content = Inr (JObj kvs)"
      and n: "ensure_percentages (JObj kvs) = Inr j'" and b: "body resp = wire j'"
      by blast
    from ensure_percentages_shape[OF n] obtain kvs' where j': "j' = JObj kvs'"
      and o: "\<forall>g. g \<noteq> ''positive'' \<and> g \<noteq> ''negative'' \<longrightarrow> map_of kvs' g = map_of kvs g"
      by blast
    have g: "get_prop (body resp) g = map_option wire (get_prop (JObj kvs) g)"
      if "g \<noteq> ''positive''" "g \<noteq> ''negative''" for g
    proof -
      have "get_prop (body resp) g = map_option wire (map_of kvs' g)"
        unfolding b j' by (rule get_prop_wire)
      with o that show ?thesis by simp
    qed
    have k: "get_prop (body resp) ''keywords'' = map_option wire (get_prop (JObj kvs) ''keywords'')"
      by (rule g) simp_all
    have t: "get_prop (body resp) ''totalCount'' = map_option wire (get_prop (JObj kvs) ''totalCount'')"
      by (rule g) simp_all
    from index_integrity_wire[OF k t] k t c show ?thesis by blast
  qed
  have m: "map_of (obj_set ''keywords'' v kvs) g = map_of kvs g" if "g \<noteq> ''keywords''" for g
    using that by (simp add: map_of_obj_set)
  have 2: "(\<exists>r. ensure_percentages (JObj (obj_set ''keywords'' v kvs)) = Inr r)
        \<longleftrightarrow> (\<exists>r. ensure_percentages (JObj kvs) = Inr r)"
    unfolding ensure_percentages_succeeds_iff by (simp add: m)
  from 1 2 show ?thesis by blast
qed

theorem keywords_passed_through_witness:
  "POST example_env
      (always ''{\"totalCount\":3,\"keywords\":[{\"keyword\":\"delivery\",\"reviewIndices\":[1,40]}]}'')
      (example_request None)
     = (Inr \<lparr>status = 200,
              body = JObj [(''totalCount'', JNum (Fin 3)),
                           (''keywords'', JArr [JObj [(''keyword'', JStr ''delivery''),
                              (''reviewIndices'', JArr [JNum (Fin 1), JNum (Fin 40)])]]),
                           (''positive'', JNull), (''negative'', JNull)]\<rparr>,
        [single_request None example_reviews])
   \<and> \<not> index_integrity
         (JObj [(''totalCount'', JNum (Fin 3)),
                (''keywords'', JArr [JObj [(''keyword'', JStr ''delivery''),
                   (''reviewIndices'', JArr [JNum (Fin 1), JNum (Fin 40)])]])])
   \<and> \<not> index_integrity
         (JObj [(''totalCount'', JNum (Fin 3)),
                (''keywords'', JArr [JObj [(''keyword'', JStr ''delivery''),
                   (''reviewIndices'', JArr [JNum (Fin 1), JNum (Fin 40)])]]),
                (''positive'', JNull), (''negative'', JNull)])"
proof -
  define t where "t = ''{\"totalCount\":3,\"keywords\":[{\"keyword\":\"delivery\",\"reviewIndices\":[1,40]}]}''"
  define j0 where "j0 = JObj [(''totalCount'', JNum (Fin 3)),
                (''keywords'', JArr [JObj [(''keyword'', JStr ''delivery''),
                   (''reviewIndices'', JArr [JNum (Fin 1), JNum (Fin 40)])]])]"
  define r where "r = \<lparr>status = 200,
              body = JObj [(''totalCount'', JNum (Fin 3)),
                           (''keywords'', JArr [JObj [(''keyword'', JStr ''delivery''),
                              (''reviewIndices'', JArr [JNum (Fin 1), JNum (Fin 40)])]]),
                           (''positive'', JNull), (''negative'', JNull)]\<rparr>"
  have p: "POST example_env (always t) (example_request None)
             = (Inr r, [single_request None example_reviews])"
    unfolding t_def r_def by code_simp
  have s: "status r = 200" by (simp add: r_def)
  have x: "parse_match t = Inr j0" unfolding t_def j0_def by code_simp
  have i: "\<not> index_integrity j0" unfolding j0_def by code_simp
  from keywords_passed_through[of example_env "always t" "example_request None" r
      "[single_request None example_reviews]" JNull "[]", THEN conjunct1, rule_format, OF conjI, OF p s]
  obtain content msg j where
    c: "reply_text (always t [] (single_request None example_reviews)) = Inr content"
    and e: "extract_json msg content = Inr j"
    and k: "index_integrity (body r) \<longleftrightarrow> index_integrity j"
    by auto
  from c have "content = t"
    by (simp add: always_def reply_text_def await_def first_content_def and_then_def)
  with e have "parse_match t = Inr j"
    by (auto simp: extract_json_def and_then_def split: sum.splits if_splits)
  with x have "j = j0" by simp
  with k i have "\<not> index_integrity (body r)" by simp
  then have "\<not> index_integrity
         (JObj [(''totalCount'', JNum (Fin 3)),
                (''keywords'', JArr [JObj [(''keyword'', JStr ''delivery''),
                   (''reviewIndices'', JArr [JNum (Fin 1), JNum (Fin 40)])]]),
                (''positive'', JNull), (''negative'', JNull)])"
    by (simp add: r_def)
  with p i show ?thesis unfolding t_def r_def j0_def by (intro conjI)
qed

text \<open>
  C9.  For a request that passes the two entry checks and whose reviews can be written
  into a prompt (every batch of strings), the strategy is fixed by the test
  \<open>locale === 'ko'\<close> alone.  When it holds the calls are the sentiment call and then,
  only when the checks on the sentiment reply succeed, the keyword call built from the
  accepted sentiments: two calls in that order when the accepted sentiments can be
  written into the prompt, as every array of strings can, and the sentiment call alone
  in every other case.  When the test does not hold there is exactly one call, the one
  of the single-pass branch.  No request makes a call of both branches.
\<close>

theorem one_strategy_per_request:
  assumes "OPENAI_API_KEY e = Some k" "k \<noteq> []"
    and "reviews req = Some (JArr rs)" "rs \<noteq> []" "writable rs"
  shows "(req_locale req = Some (JStr ''ko'') \<longrightarrow>
            (case and_then (reply_text (svc [] (sentiment_request rs))) (sentiment_step rs) of
               Inl err \<Rightarrow> snd (POST e svc req) = [sentiment_request rs]
             | Inr ss \<Rightarrow>
                 snd (POST e svc req)
                   = (if writable ss then [sentiment_request rs, keyword_request rs ss]
                      else [sentiment_request rs]))
            \<and> (\<forall>l b. single_request l b \<notin> set (snd (POST e svc req))))
         \<and> (req_locale req \<noteq> Some (JStr ''ko'') \<longrightarrow>
              snd (POST e svc req) = [single_request (req_locale req) rs]
              \<and> (\<forall>b. sentiment_request b \<notin> set (snd (POST e svc req)))
              \<and> (\<forall>b s. keyword_request b s \<notin> set (snd (POST e svc req))))"
proof (intro conjI impI)
  assume ko: "req_locale req = Some (JStr ''ko'')"
  with POST_valid[OF assms(1-4), of svc] assms(5) have eq: "POST e svc req = two_pass svc rs"
    by simp
  show "case and_then (reply_text (svc [] (sentiment_request rs))) (sentiment_step rs) of
               Inl err \<Rightarrow> snd (POST e svc req) = [sentiment_request rs]
             | Inr ss \<Rightarrow>
                 snd (POST e svc req)
                   = (if writable ss then [sentiment_request rs, keyword_request rs ss]
                      else [sentiment_request rs])"
    unfolding eq by (simp add: two_pass_eq[OF assms(5)] split: sum.splits)
  show "\<forall>l b. single_request l b \<notin> set (snd (POST e svc req))"
    unfolding eq by (simp add: two_pass_eq[OF assms(5)] requests_differ split: sum.splits)
next
  assume nko: "req_locale req \<noteq> Some (JStr ''ko'')"
  with POST_valid[OF assms(1-4), of svc] assms(5)
  have eq: "POST e svc req = single_pass svc (req_locale req) (PromptEn (numbered rs))" by simp
  show "snd (POST e svc req) = [single_request (req_locale req) rs]"
    unfolding eq by (simp add: single_pass_eq)
  show "\<forall>b. sentiment_request b \<notin> set (snd (POST e svc req))"
    unfolding eq by (simp add: single_pass_eq requests_differ(1)[symmetric])
  show "\<forall>b s. keyword_request b s \<notin> set (snd (POST e svc req))"
    unfolding eq by (simp add: single_pass_eq requests_differ(2)[symmetric])
qed

theorem one_strategy_per_request_witness:
  "writable example_reviews
   \<and> snd (POST example_env
          (staged ''{\"sentiments\":[\"positive\",\"negative\",\"positive\"]}'' ''{\"totalCount\":3}'')
          (example_request (Some (JStr ''ko''))))
     = [sentiment_request example_reviews,
        keyword_request example_reviews [JStr ''positive'', JStr ''negative'', JStr ''positive'']]
   \<and> snd (POST example_env (staged ''no sentiments'' ''{\"totalCount\":3}'')
          (example_request (Some (JStr ''ko''))))
     = [sentiment_request example_reviews]
   \<and> snd (POST example_env (staged ''no sentiments'' ''{\"totalCount\":3}'')
          (example_request (Some (JStr ''KO''))))
     = [single_request (Some (JStr ''KO'')) example_reviews]
   \<and> snd (POST example_env (staged ''no sentiments'' ''{\"totalCount\":3}'') (example_request None))
     = [single_request None example_reviews]"
proof -
  define s1 where "s1 = staged ''{\"sentiments\":[\"positive\",\"negative\",\"positive\"]}'' ''{\"totalCount\":3}''"
  define s2 where "s2 = staged ''no sentiments'' ''{\"totalCount\":3}''"
  have k: "OPENAI_API_KEY example_env = Some ''sk-test''" "''sk-test'' \<noteq> []"
    by (simp_all add: example_env_def)
  have w: "writable example_reviews" by code_simp
  have r: "reviews (example_request l) = Some (JArr example_reviews)" "example_reviews \<noteq> []"
    and l: "req_locale (example_request l) = l" for l
    by (simp_all add: example_request_def example_reviews_def)
  have a: "and_then (reply_text (s1 [] (sentiment_request example_reviews)))
             (sentiment_step example_reviews)
           = Inr [JStr ''positive'', JStr ''negative'', JStr ''positive'']"
    unfolding s1_def by code_simp
  have wa: "writable [JStr ''positive'', JStr ''negative'', JStr ''positive'']" by code_simp
  have b: "and_then (reply_text (s2 [] (sentiment_request example_reviews)))
             (sentiment_step example_reviews)
           = Inl (Error ''No valid sentiments array in OpenAI response'')"
    unfolding s2_def by code_simp
  note t1 = one_strategy_per_request[OF k r w, of "Some (JStr ''ko'')" s1, THEN conjunct1, rule_format,
      OF l, THEN conjunct1]
  note t2 = one_strategy_per_request[OF k r w, of "Some (JStr ''ko'')" s2, THEN conjunct1, rule_format,
      OF l, THEN conjunct1]
  note t3 = one_strategy_per_request[OF k r w, of "Some (JStr ''KO'')" s2, THEN conjunct2, rule_format,
      THEN conjunct1]
  note t4 = one_strategy_per_request[OF k r w, of None s2, THEN conjunct2, rule_format,
      THEN conjunct1]
  from t1 a wa have 1: "snd (POST example_env s1 (example_request (Some (JStr ''ko''))))
     = [sentiment_request example_reviews,
        keyword_request example_reviews [JStr ''positive'', JStr ''negative'', JStr ''positive'']]"
    by simp
  from t2 b have 2: "snd (POST example_env s2 (example_request (Some (JStr ''ko''))))
     = [sentiment_request example_reviews]"
    by simp
  have 3: "snd (POST example_env s2 (example_request (Some (JStr ''KO''))))
     = [single_request (Some (JStr ''KO'')) example_reviews]"
    using t3 by (simp add: l)
  have 4: "snd (POST example_env s2 (example_request None))
     = [single_request None example_reviews]"
    using t4 by (simp add: l)
  from w 1 2 3 4 show ?thesis unfolding s1_def s2_def by (intro conjI)
qed

text \<open>
  C10, as the specification states it, fails: the batch \<open>[{"toString":1}]\<close> is a
  non-empty array of one value that is no string, and it passes the check of the batch,
  but the completion service is not called.  The prompt is built before the call and
  outside every \<open>try\<close>; writing the review into it converts the object to a string, which
  throws a \<open>TypeError\<close> that nothing catches.
\<close>

theorem batch_elements_counterexample:
  "POST example_env (always ''{}'')
      \<lparr>reviews = Some (JArr [JObj [(''toString'', JNum (Fin 1))]]), req_locale = None\<rparr>
     = (Inl TypeError, [])
   \<and> \<not> is_string (JObj [(''toString'', JNum (Fin 1))])
   \<and> POST example_env (always ''{}'')
      \<lparr>reviews = Some (JArr [JObj [(''toString'', JNum (Fin 1))]]), req_locale = Some (JStr ''ko'')\<rparr>
     = (Inl TypeError, [])"
  by code_simp

text \<open>
  C10, amended.  With the key set, the route refuses the batch with
  \<open>No reviews provided.\<close> exactly when \<open>reviews\<close> is not a non-empty array.  The elements
  of the array are not looked at, trimmed or filtered: for every non-empty array whose
  elements can be written into a prompt, among them \<open>[""]\<close> and the arrays of blanks,
  numbers, booleans and \<open>null\<close>, the completion service is called, and the prompt of the
  first call carries every element, in order and unchanged, with its number.
\<close>

theorem batch_elements_unchecked:
  assumes "OPENAI_API_KEY e = Some k" "k \<noteq> []"
  shows "(fst (POST e svc req) = Inr (error_response 400 ''No reviews provided.'')
            \<longleftrightarrow> \<not> (\<exists>rs. reviews req = Some (JArr rs) \<and> rs \<noteq> []))
         \<and> (\<forall>rs. reviews req = Some (JArr rs) \<and> rs \<noteq> [] \<and> writable rs \<longrightarrow>
               snd (POST e svc req) \<noteq> []
               \<and> user_content (hd (snd (POST e svc req)))
                   = (if req_locale req = Some (JStr ''ko'') then SentimentPrompt (numbered rs)
                      else PromptEn (numbered rs))
               \<and> map snd (numbered rs) = rs
               \<and> map fst (numbered rs) = [1..<Suc (length rs)])
         \<and> (\<forall>rs. list_all (\<lambda>x. case x of JObj kvs \<Rightarrow> False | JArr ys \<Rightarrow> False | _ \<Rightarrow> True) rs
               \<longrightarrow> writable rs)"
proof -
  have v: "fst (POST e svc req) \<noteq> Inr (error_response 400 ''No reviews provided.'')"
    if rs: "reviews req = Some (JArr rs)" "rs \<noteq> []" for rs
  proof
    assume a: "fst (POST e svc req) = Inr (error_response 400 ''No reviews provided.'')"
    then have "POST e svc req
        = (Inr (error_response 400 ''No reviews provided.''), snd (POST e svc req))"
      by (metis prod.collapse)
    from POST_valid_answers[OF assms rs this] show False
      by (auto simp: status_simps error_response_def)
  qed
  have c: "snd (POST e svc req) \<noteq> []
           \<and> user_content (hd (snd (POST e svc req)))
               = (if req_locale req = Some (JStr ''ko'') then SentimentPrompt (numbered rs)
                  else PromptEn (numbered rs))
           \<and> map snd (numbered rs) = rs
           \<and> map fst (numbered rs) = [1..<Suc (length rs)]"
    if rs: "reviews req = Some (JArr rs)" "rs \<noteq> []" and w: "writable rs" for rs
  proof (cases "req_locale req = Some (JStr ''ko'')")
    case True
    with POST_valid[OF assms rs, of svc] w have eq: "POST e svc req = two_pass svc rs" by simp
    have "snd (two_pass svc rs) \<noteq> []
        \<and> user_content (hd (snd (two_pass svc rs))) = SentimentPrompt (numbered rs)"
      by (simp add: two_pass_eq[OF w] request_prompts split: sum.splits)
    then show ?thesis unfolding eq using True by (simp add: numbered_parts)
  next
    case False
    with POST_valid[OF assms rs, of svc] w
    have eq: "POST e svc req = single_pass svc (req_locale req) (PromptEn (numbered rs))" by simp
    have "snd (single_pass svc (req_locale req) (PromptEn (numbered rs))) \<noteq> []
        \<and> user_content (hd (snd (single_pass svc (req_locale req) (PromptEn (numbered rs)))))
            = PromptEn (numbered rs)"
      by (simp add: single_pass_eq request_prompts)
    then show ?thesis unfolding eq using False by (simp add: numbered_parts)
  qed
  have r: "fst (POST e svc req) = Inr (error_response 400 ''No reviews provided.'')"
    if "\<not> (\<exists>rs. reviews req = Some (JArr rs) \<and> rs \<noteq> [])"
    using POST_no_batch[OF assms that, of svc] by simp
  have p: "writable rs"
    if "list_all (\<lambda>x. case x of JObj kvs \<Rightarrow> False | JArr ys \<Rightarrow> False | _ \<Rightarrow> True) rs" for rs
    using that by (rule primitives_writable)
  from v c r p show ?thesis by blast
qed

theorem batch_elements_unchecked_witness:
  "snd (POST example_env (always ''{}'') \<lparr>reviews = Some (JArr [JStr '''']), req_locale = None\<rparr>)
     = [single_request None [JStr '''']]
   \<and> writable [JStr '''', JStr ''  '', JNum (Fin 5), JNull]
   \<and> user_content (hd (snd (POST example_env (always ''{}'')
        \<lparr>reviews = Some (JArr [JStr '''', JStr ''  '', JNum (Fin 5), JNull]), req_locale = None\<rparr>)))
     = PromptEn [(1, JStr ''''), (2, JStr ''  ''), (3, JNum (Fin 5)), (4, JNull)]
   \<and> fst (POST example_env (always ''{}'') \<lparr>reviews = Some (JArr [JStr '''']), req_locale = None\<rparr>)
     \<noteq> Inr (error_response 400 ''No reviews provided.'')"
proof -
  define q1 where "q1 = \<lparr>reviews = Some (JArr [JStr '''']), req_locale = None\<rparr>"
  define q2 where "q2 = \<lparr>reviews = Some (JArr [JStr '''', JStr ''  '', JNum (Fin 5), JNull]), req_locale = None\<rparr>"
  have k: "OPENAI_API_KEY example_env = Some ''sk-test''" "''sk-test'' \<noteq> []"
    by (simp_all add: example_env_def)
  note t1 = batch_elements_unchecked[OF k, of "always ''{}''" q1]
  note t2 = batch_elements_unchecked[OF k, of "always ''{}''" q2]
  have r1: "reviews q1 = Some (JArr [JStr '''']) \<and> [JStr ''''] \<noteq> []" by (simp add: q1_def)
  have w: "writable [JStr '''', JStr ''  '', JNum (Fin 5), JNull]"
    using t2[THEN conjunct2, THEN conjunct2, rule_format,
        of "[JStr '''', JStr ''  '', JNum (Fin 5), JNull]"] by simp
  have r2: "reviews q2 = Some (JArr [JStr '''', JStr ''  '', JNum (Fin 5), JNull])
            \<and> [JStr '''', JStr ''  '', JNum (Fin 5), JNull] \<noteq> []
            \<and> writable [JStr '''', JStr ''  '', JNum (Fin 5), JNull]"
    using w by (simp add: q2_def)
  from t1 r1 have a: "fst (POST example_env (always ''{}'') q1)
      \<noteq> Inr (error_response 400 ''No reviews provided.'')"
    by blast
  from t2[THEN conjunct2, THEN conjunct1, rule_format, OF r2]
  have "user_content (hd (snd (POST example_env (always ''{}'') q2)))
      = PromptEn (numbered [JStr '''', JStr ''  '', JNum (Fin 5), JNull])"
    by (simp add: q2_def)
  moreover have "numbered [JStr '''', JStr ''  '', JNum (Fin 5), JNull]
      = [(1, JStr ''''), (2, JStr ''  ''), (3, JNum (Fin 5)), (4, JNull)]"
    by code_simp
  ultimately have b: "user_content (hd (snd (POST example_env (always ''{}'') q2)))
      = PromptEn [(1, JStr ''''), (2, JStr ''  ''), (3, JNum (Fin 5)), (4, JNull)]"
    by simp
  have c: "snd (POST example_env (always ''{}'') q1) = [single_request None [JStr '''']]"
    unfolding q1_def by code_simp
  from a b c w show ?thesis unfolding q1_def q2_def by (intro conjI)
qed

end
